theory Spec2Isabelle
  imports Complex_Main "HOL-Library.Word" "HOL-Library.AList"
begin

text \<open>
  Nova Physics: the coefficient mixer and the resolution data of \<open>resolution.h\<close>, the
  resolution cache and the sequential-impulse solver that work on that data, and the
  growable pointer array of \<open>array.c\<close>. The definitions come first, the lemmas and
  theorems after them.
\<close>

section \<open>Scalars, errors\<close>

text \<open>Modelled from the spec: the typedef of \<open>nv_float\<close> is not part of the
  sources; the spec treats coefficients as numbers with exact arithmetic, so the model
  uses the reals (no rounding, no NaN, no infinities).\<close>
type_synonym nv_float = real

text \<open>Modelled from the spec: the macros \<open>nv_sqrt\<close>, \<open>nv_fmin\<close> and \<open>nv_fmax\<close> are
  missing from the sources; the spec names them square root, minimum and maximum.\<close>
definition nv_sqrt :: "nv_float \<Rightarrow> nv_float" where
  "nv_sqrt x = sqrt x"

definition nv_fmin :: "nv_float \<Rightarrow> nv_float \<Rightarrow> nv_float" where
  "nv_fmin x y = min x y"

definition nv_fmax :: "nv_float \<Rightarrow> nv_float \<Rightarrow> nv_float" where
  "nv_fmax x y = max x y"

text \<open>A fatal error is the left summand of every fallible result; \<open>NV_ERROR message\<close> is
  the one that the macro of that name raises.\<close>
datatype nvError = NV_ERROR string | MissingHandle nat | InvalidIterations int | ContactIndex nat

text \<open>Modelled from the spec: the macro \<open>NV_ERROR\<close> is missing from the sources; the spec
  describes it as a hard process abort. What the macro does with a message is \<open>Some\<close> of
  the fatal error when it ends the process, and \<open>None\<close> when it comes back to the statement
  behind it.\<close>
definition NV_ERROR_macro :: "string \<Rightarrow> nvError option" where
  "NV_ERROR_macro message = Some (NV_ERROR message)"

section \<open>Coefficient mixing (resolution.h)\<close>

text \<open>A C enum is an \<open>int\<close>: a caller can pass any value, which is what the \<open>default\<close>
  branch of the switch is for.\<close>
type_synonym nvCoefficientMix = int

definition nvCoefficientMix_AVG :: nvCoefficientMix where "nvCoefficientMix_AVG = 0"
definition nvCoefficientMix_MUL :: nvCoefficientMix where "nvCoefficientMix_MUL = 1"
definition nvCoefficientMix_SQRT :: nvCoefficientMix where "nvCoefficientMix_SQRT = 2"
definition nvCoefficientMix_MIN :: nvCoefficientMix where "nvCoefficientMix_MIN = 3"
definition nvCoefficientMix_MAX :: nvCoefficientMix where "nvCoefficientMix_MAX = 4"

text \<open>The switch of \<open>nv_mix_coefficients\<close>, with the effect of the macro in its
  \<open>default\<close> branch as the parameter \<open>on_error\<close>: the branch runs the macro and, if the
  macro comes back, the \<open>return 0.0\<close> behind it.\<close>
definition nv_mix_coefficients_with ::
  "(string \<Rightarrow> nvError option) \<Rightarrow> nv_float \<Rightarrow> nv_float \<Rightarrow> nvCoefficientMix \<Rightarrow>
   nvError + nv_float" where
  "nv_mix_coefficients_with on_error a b mix =
     (if mix = nvCoefficientMix_AVG then Inr ((a + b) / 2)
      else if mix = nvCoefficientMix_MUL then Inr (a * b)
      else if mix = nvCoefficientMix_SQRT then Inr (nv_sqrt (a * b))
      else if mix = nvCoefficientMix_MIN then Inr (nv_fmin a b)
      else if mix = nvCoefficientMix_MAX then Inr (nv_fmax a b)
      else (case on_error ''Unknown coefficient mixing function.'' of
              Some err \<Rightarrow> Inl err
            | None \<Rightarrow> Inr 0))"

definition nv_mix_coefficients ::
  "nv_float \<Rightarrow> nv_float \<Rightarrow> nvCoefficientMix \<Rightarrow> nvError + nv_float" where
  "nv_mix_coefficients a b mix = nv_mix_coefficients_with NV_ERROR_macro a b mix"

section \<open>Growable array (array.c)\<close>

text \<open>\<open>size_t\<close> and \<open>void *\<close> on a 64-bit target. The buffer behind \<open>data\<close> is the list
  of its allocated slots. The fields carry the prefix \<open>arr_\<close> because \<open>size\<close> and
  \<open>max\<close> are constants of HOL.\<close>
type_synonym size_t = "64 word"
type_synonym void_ptr = "64 word"

definition NULL :: void_ptr where
  "NULL = 0"

record nvArray =
  arr_size :: size_t
  arr_max :: size_t
  arr_data :: "void_ptr list"

text \<open>Every slot below \<open>size\<close> is allocated: the loops read and write only such
  slots, and C leaves an access outside the buffer undefined. The elements of the array are
  the first \<open>size\<close> slots.\<close>
definition nvArray_valid :: "nvArray \<Rightarrow> bool" where
  "nvArray_valid array \<longleftrightarrow> unat (arr_size array) \<le> length (arr_data array)"

definition nvArray_elems :: "nvArray \<Rightarrow> void_ptr list" where
  "nvArray_elems array = take (unat (arr_size array)) (arr_data array)"

function nvArray_pop_loop :: "nvArray \<Rightarrow> size_t \<Rightarrow> size_t \<Rightarrow> void_ptr \<times> nvArray" where
  "nvArray_pop_loop array index i =
     (if i < arr_size array then
        (if i = index then
           (let sz = arr_size array - 1;
                elem = arr_data array ! unat i;
                d1 = (arr_data array)[unat i := arr_data array ! unat sz];
                d2 = d1[unat sz := NULL]
            in (elem, array\<lparr>arr_size := sz, arr_data := d2\<rparr>))
         else nvArray_pop_loop array index (i + 1))
      else (NULL, array))"
  by pat_completeness auto
termination
  by (relation "measure (\<lambda>(array, index, i). unat (arr_size array) - unat i)")
     (simp, simp, unat_arith)

declare nvArray_pop_loop.simps [simp del]

definition nvArray_pop :: "nvArray \<Rightarrow> size_t \<Rightarrow> void_ptr \<times> nvArray" where
  "nvArray_pop array index = nvArray_pop_loop array index 0"

function nvArray_remove_loop :: "nvArray \<Rightarrow> void_ptr \<Rightarrow> size_t \<Rightarrow> size_t \<times> nvArray" where
  "nvArray_remove_loop array elem i =
     (if i < arr_size array then
        (if arr_data array ! unat i = elem then
           (let sz = arr_size array - 1;
                d1 = (arr_data array)[unat i := arr_data array ! unat sz];
                d2 = d1[unat sz := NULL]
            in (i, array\<lparr>arr_size := sz, arr_data := d2\<rparr>))
         else nvArray_remove_loop array elem (i + 1))
      else (- 1, array))"
  by pat_completeness auto
termination
  by (relation "measure (\<lambda>(array, elem, i). unat (arr_size array) - unat i)")
     (simp, simp, unat_arith)

declare nvArray_remove_loop.simps [simp del]

definition nvArray_remove :: "nvArray \<Rightarrow> void_ptr \<Rightarrow> size_t \<times> nvArray" where
  "nvArray_remove array elem = nvArray_remove_loop array elem 0"

text \<open>The array after the element of slot \<open>i\<close> is swapped out: the closed form of the
  body that both loops run when they stop at \<open>i\<close>.\<close>
definition nvArray_swapped_out :: "nvArray \<Rightarrow> size_t \<Rightarrow> nvArray" where
  "nvArray_swapped_out array i =
     array\<lparr>arr_size := arr_size array - 1,
           arr_data := (arr_data array)[unat i := arr_data array ! unat (arr_size array - 1),
                                        unat (arr_size array - 1) := NULL]\<rparr>"

section \<open>Vectors and bodies\<close>

text \<open>Modelled from the spec: \<open>vector.h\<close> is not among the sources. A 2D vector
  is its pair of coordinates; the operations are the usual ones of plane geometry.\<close>
type_synonym nvVector2 = "nv_float \<times> nv_float"

definition nvVector2_add :: "nvVector2 \<Rightarrow> nvVector2 \<Rightarrow> nvVector2" where
  "nvVector2_add u v = (fst u + fst v, snd u + snd v)"

definition nvVector2_sub :: "nvVector2 \<Rightarrow> nvVector2 \<Rightarrow> nvVector2" where
  "nvVector2_sub u v = (fst u - fst v, snd u - snd v)"

definition nvVector2_mul :: "nvVector2 \<Rightarrow> nv_float \<Rightarrow> nvVector2" where
  "nvVector2_mul v s = (fst v * s, snd v * s)"

definition nvVector2_neg :: "nvVector2 \<Rightarrow> nvVector2" where
  "nvVector2_neg v = (- fst v, - snd v)"

definition nvVector2_dot :: "nvVector2 \<Rightarrow> nvVector2 \<Rightarrow> nv_float" where
  "nvVector2_dot u v = fst u * fst v + snd u * snd v"

definition nvVector2_cross :: "nvVector2 \<Rightarrow> nvVector2 \<Rightarrow> nv_float" where
  "nvVector2_cross u v = fst u * snd v - snd u * fst v"

definition nvVector2_perp :: "nvVector2 \<Rightarrow> nvVector2" where
  "nvVector2_perp v = (- snd v, fst v)"

definition nvVector2_dist2 :: "nvVector2 \<Rightarrow> nvVector2 \<Rightarrow> nv_float" where
  "nvVector2_dist2 u v = nvVector2_dot (nvVector2_sub u v) (nvVector2_sub u v)"

text \<open>Modelled from the spec: \<open>body.h\<close> is not among the sources. The fields are
  those the spec lists for the body registry: position (centre of mass), orientation, linear
  and angular velocity, inverse mass, inverse inertia, and the friction and restitution
  coefficients of the material. A body is referred to by a handle.\<close>
record nvBody =
  body_position :: nvVector2
  body_angle :: nv_float
  linear_velocity :: nvVector2
  angular_velocity :: nv_float
  invmass :: nv_float
  invinertia :: nv_float
  body_friction :: nv_float
  body_restitution :: nv_float

type_synonym nvBody_ref = nat

section \<open>Resolution data (resolution.h)\<close>

datatype nvResolutionState =
  nvResolutionState_FIRST
  | nvResolutionState_NORMAL
  | nvResolutionState_CACHED

record nvContact =
  position :: nvVector2
  ra :: nvVector2
  rb :: nvVector2
  velocity_bias :: nv_float
  position_bias :: nv_float
  mass_normal :: nv_float
  mass_tangent :: nv_float
  jn :: nv_float
  jb :: nv_float
  jt :: nv_float

text \<open>The struct \<open>nvResolution\<close>. The body pointers \<open>a\<close> and \<open>b\<close> are the fields
  \<open>body_a\<close> and \<open>body_b\<close> (handles into the registry); \<open>contacts\<close> is the inline
  array \<open>contacts[2]\<close>, a list that \<open>nvResolution_wf\<close> below keeps at length 2;
  \<open>contact_count\<close> is an \<open>nv_uint8\<close>; \<open>lifetime\<close> is a C \<open>int\<close> whose only arithmetic
  is the decrement of a cached record, so it is an integer without wrap-around.\<close>
record nvResolution =
  collision :: bool
  body_a :: nvBody_ref
  body_b :: nvBody_ref
  normal :: nvVector2
  depth :: nv_float
  friction :: nv_float
  state :: nvResolutionState
  lifetime :: int
  contacts :: "nvContact list"
  contact_count :: "8 word"

definition nvResolution_wf :: "nvResolution \<Rightarrow> bool" where
  "nvResolution_wf res \<longleftrightarrow> length (contacts res) = 2 \<and> unat (contact_count res) \<le> 2"

text \<open>The contact points in use: the first \<open>contact_count\<close> slots of the array.\<close>
definition active_contacts :: "nvResolution \<Rightarrow> nvContact list" where
  "active_contacts res = take (unat (contact_count res)) (contacts res)"

section \<open>Manifolds, settings and the space\<close>

text \<open>Modelled from the spec: the narrow phase is an external collaborator. It supplies a
  manifold: collision flag, normal, depth and up to 2 contact positions.\<close>
datatype nvManifoldPoints =
  NoPoint
  | OnePoint nvVector2
  | TwoPoints nvVector2 nvVector2

fun points_list :: "nvManifoldPoints \<Rightarrow> nvVector2 list" where
  "points_list NoPoint = []"
| "points_list (OnePoint p) = [p]"
| "points_list (TwoPoints p q) = [p, q]"

record nvManifold =
  m_collision :: bool
  m_normal :: nvVector2
  m_depth :: nv_float
  m_points :: nvManifoldPoints

text \<open>Modelled from the spec: the configuration the driver supplies: mixing mode, cached
  lifetime budget in ticks and the matching threshold for contact points. The spec names the
  ingredients of the effective masses, of the restitution term and of the two
  position-correction terms but gives no formula for them; they are parameters of the model,
  and every statement below holds for any choice of them.\<close>
record nvSettings =
  mix_mode :: nvCoefficientMix
  cached_lifetime :: int
  match_threshold :: nv_float
  effective_mass :: "nvBody \<Rightarrow> nvBody \<Rightarrow> nvVector2 \<Rightarrow> nvVector2 \<Rightarrow> nvVector2 \<Rightarrow> nv_float"
  restitution_bias :: "nv_float \<Rightarrow> nvBody \<Rightarrow> nvBody \<Rightarrow> nvVector2 \<Rightarrow> nvVector2 \<Rightarrow> nvVector2 \<Rightarrow> nv_float"
  penetration_bias :: "nv_float \<Rightarrow> nv_float"
  pseudo_impulse :: "nvBody \<Rightarrow> nvBody \<Rightarrow> nvVector2 \<Rightarrow> nvContact \<Rightarrow> nv_float"

text \<open>Modelled from the spec: \<open>struct nvSpace\<close> is only declared in the sources.
  It holds the settings, the body registry and the resolution cache: one record per body
  pair, kept in registration order (the order in which the solver visits them).\<close>
record nvSpace =
  settings :: nvSettings
  bodies :: "nvBody_ref \<rightharpoonup> nvBody"
  resolutions :: "((nvBody_ref \<times> nvBody_ref) \<times> nvResolution) list"

section \<open>ResolutionCache\<close>

text \<open>Modelled from the spec: the content of a contact slot that was never written.\<close>
definition nvContact_zero :: nvContact where
  "nvContact_zero =
     \<lparr>position = (0, 0), ra = (0, 0), rb = (0, 0), velocity_bias = 0, position_bias = 0,
      mass_normal = 0, mass_tangent = 0, jn = 0, jb = 0, jt = 0\<rparr>"

text \<open>Modelled from the spec: a contact point built from the current body state: \<open>ra\<close> and
  \<open>rb\<close> are the contact position minus each body's centre of mass; the effective masses
  along the normal and the tangent and the two bias terms are recomputed; the accumulated
  impulses \<open>jn\<close>, \<open>jt\<close>, \<open>jb\<close> start at 0.\<close>
definition nvContact_new ::
  "nvSettings \<Rightarrow> nvBody \<Rightarrow> nvBody \<Rightarrow> nvVector2 \<Rightarrow> nv_float \<Rightarrow> nv_float \<Rightarrow> nvVector2 \<Rightarrow> nvContact" where
  "nvContact_new cfg A B n d e p =
     (let r_a = nvVector2_sub p (body_position A);
          r_b = nvVector2_sub p (body_position B)
      in \<lparr>position = p, ra = r_a, rb = r_b,
          velocity_bias = restitution_bias cfg e A B r_a r_b n,
          position_bias = penetration_bias cfg d,
          mass_normal = effective_mass cfg A B r_a r_b n,
          mass_tangent = effective_mass cfg A B r_a r_b (nvVector2_perp n),
          jn = 0, jb = 0, jt = 0\<rparr>)"

text \<open>Modelled from the spec: the nearest previous contact point (the earlier one on a tie),
  accepted when its distance is within the threshold. Distances are compared by their
  squares, which for a threshold \<open>t \<ge> 0\<close> is the same as comparing them.\<close>
fun nearest_contact :: "nvVector2 \<Rightarrow> nvContact list \<Rightarrow> nvContact option" where
  "nearest_contact p [] = None"
| "nearest_contact p (c # cs) =
     (case nearest_contact p cs of
        None \<Rightarrow> Some c
      | Some c' \<Rightarrow>
          if nvVector2_dist2 p (position c) \<le> nvVector2_dist2 p (position c')
          then Some c else Some c')"

text \<open>Modelled from the spec: the match for a new contact position among the previous
  contact points, if the nearest one is within the threshold \<open>t\<close>.\<close>
definition match_contact :: "nv_float \<Rightarrow> nvVector2 \<Rightarrow> nvContact list \<Rightarrow> nvContact option" where
  "match_contact t p cs =
     (case nearest_contact p cs of
        None \<Rightarrow> None
      | Some c \<Rightarrow> if 0 \<le> t \<and> nvVector2_dist2 p (position c) \<le> t * t then Some c else None)"

text \<open>Modelled from the spec: a contact point of a pair that already has a record: all
  derived quantities are recomputed as for a new point; the accumulated impulses are carried
  over from the matching previous point (warm start) and are 0 when there is none.\<close>
definition nvContact_refresh ::
  "nvSettings \<Rightarrow> nvBody \<Rightarrow> nvBody \<Rightarrow> nvVector2 \<Rightarrow> nv_float \<Rightarrow> nv_float \<Rightarrow> nvContact list \<Rightarrow>
   nvVector2 \<Rightarrow> nvContact" where
  "nvContact_refresh cfg A B n d e old p =
     (let c = nvContact_new cfg A B n d e p
      in case match_contact (match_threshold cfg) p old of
           None \<Rightarrow> c
         | Some c0 \<Rightarrow> c\<lparr>jn := jn c0, jb := jb c0, jt := jt c0\<rparr>)"

text \<open>Modelled from the spec: writing the new contact points into the inline array: they
  fill the slots from the front, slots behind them keep what they held.\<close>
definition store_contacts :: "nvContact list \<Rightarrow> nvContact list \<Rightarrow> nvContact list" where
  "store_contacts array cs = cs @ drop (length cs) array"

text \<open>Modelled from the spec: \<open>update\<close> for a pair without a record. A missing body handle
  and an unknown mixing mode are fatal.\<close>
definition create_resolution ::
  "nvSpace \<Rightarrow> nvBody_ref \<times> nvBody_ref \<Rightarrow> nvManifold \<Rightarrow> nvError + nvResolution" where
  "create_resolution space pair m =
     (case bodies space (fst pair) of
        None \<Rightarrow> Inl (MissingHandle (fst pair))
      | Some A \<Rightarrow>
     (case bodies space (snd pair) of
        None \<Rightarrow> Inl (MissingHandle (snd pair))
      | Some B \<Rightarrow>
     (case nv_mix_coefficients (body_friction A) (body_friction B) (mix_mode (settings space)) of
        Inl err \<Rightarrow> Inl err
      | Inr f \<Rightarrow>
     (case nv_mix_coefficients (body_restitution A) (body_restitution B)
             (mix_mode (settings space)) of
        Inl err \<Rightarrow> Inl err
      | Inr e \<Rightarrow>
          Inr \<lparr>collision = m_collision m, body_a = fst pair, body_b = snd pair,
               normal = m_normal m, depth = m_depth m, friction = f,
               state = nvResolutionState_FIRST,
               lifetime = cached_lifetime (settings space),
               contacts = store_contacts [nvContact_zero, nvContact_zero]
                 (map (nvContact_new (settings space) A B (m_normal m) (m_depth m) e)
                    (points_list (m_points m))),
               contact_count = of_nat (length (points_list (m_points m)))\<rparr>))))"

text \<open>Modelled from the spec: \<open>update\<close> for a pair with a record and a colliding manifold:
  the contact points are matched against the previous ones, the mixed coefficients are
  recomputed, the state becomes NORMAL and the lifetime is reset to the budget.\<close>
definition refresh_resolution ::
  "nvSpace \<Rightarrow> nvResolution \<Rightarrow> nvManifold \<Rightarrow> nvError + nvResolution" where
  "refresh_resolution space res m =
     (case bodies space (body_a res) of
        None \<Rightarrow> Inl (MissingHandle (body_a res))
      | Some A \<Rightarrow>
     (case bodies space (body_b res) of
        None \<Rightarrow> Inl (MissingHandle (body_b res))
      | Some B \<Rightarrow>
     (case nv_mix_coefficients (body_friction A) (body_friction B) (mix_mode (settings space)) of
        Inl err \<Rightarrow> Inl err
      | Inr f \<Rightarrow>
     (case nv_mix_coefficients (body_restitution A) (body_restitution B)
             (mix_mode (settings space)) of
        Inl err \<Rightarrow> Inl err
      | Inr e \<Rightarrow>
          Inr (res\<lparr>collision := m_collision m, normal := m_normal m, depth := m_depth m,
                   friction := f, state := nvResolutionState_NORMAL,
                   lifetime := cached_lifetime (settings space),
                   contacts := store_contacts (contacts res)
                     (map (nvContact_refresh (settings space) A B (m_normal m) (m_depth m) e
                             (active_contacts res))
                        (points_list (m_points m))),
                   contact_count := of_nat (length (points_list (m_points m)))\<rparr>)))))"

text \<open>Modelled from the spec: \<open>update\<close> for a pair with a record and a manifold that
  reports no collision: the record becomes CACHED and its lifetime drops by one.\<close>
definition cache_resolution :: "nvResolution \<Rightarrow> nvManifold \<Rightarrow> nvResolution" where
  "cache_resolution res m =
     res\<lparr>collision := m_collision m, state := nvResolutionState_CACHED,
         lifetime := lifetime res - 1\<rparr>"

text \<open>Modelled from the spec: \<open>ResolutionCache.update(pair, manifold)\<close>, the operation
  behind the declaration \<open>nvResolution_update\<close>, whose body is not among the sources.
  A new record is registered behind the existing ones; a record whose lifetime reaches 0
  is evicted.\<close>
definition ResolutionCache_update ::
  "nvSpace \<Rightarrow> nvBody_ref \<times> nvBody_ref \<Rightarrow> nvManifold \<Rightarrow> nvError + nvSpace" where
  "ResolutionCache_update space pair m =
     (case map_of (resolutions space) pair of
        None \<Rightarrow>
          (case create_resolution space pair m of
             Inl err \<Rightarrow> Inl err
           | Inr res \<Rightarrow>
               Inr (space\<lparr>resolutions := AList.update pair res (resolutions space)\<rparr>))
      | Some res \<Rightarrow>
          if m_collision m then
            (case refresh_resolution space res m of
               Inl err \<Rightarrow> Inl err
             | Inr res' \<Rightarrow>
                 Inr (space\<lparr>resolutions := AList.update pair res' (resolutions space)\<rparr>))
          else if lifetime (cache_resolution res m) = 0 then
            Inr (space\<lparr>resolutions := AList.delete pair (resolutions space)\<rparr>)
          else
            Inr (space\<lparr>resolutions :=
                   AList.update pair (cache_resolution res m) (resolutions space)\<rparr>))"

text \<open>Modelled from the spec: \<open>ResolutionCache.evict(pair)\<close>.\<close>
definition ResolutionCache_evict :: "nvSpace \<Rightarrow> nvBody_ref \<times> nvBody_ref \<Rightarrow> nvSpace" where
  "ResolutionCache_evict space pair =
     space\<lparr>resolutions := AList.delete pair (resolutions space)\<rparr>"

section \<open>ConstraintSolver\<close>

text \<open>Modelled from the spec: the velocity of body B at the contact point relative to that
  of body A, from linear and angular velocity and the lever arms.\<close>
definition relative_velocity :: "nvBody \<Rightarrow> nvBody \<Rightarrow> nvContact \<Rightarrow> nvVector2" where
  "relative_velocity A B c =
     nvVector2_sub
       (nvVector2_add (linear_velocity B)
          (nvVector2_mul (nvVector2_perp (rb c)) (angular_velocity B)))
       (nvVector2_add (linear_velocity A)
          (nvVector2_mul (nvVector2_perp (ra c)) (angular_velocity A)))"

text \<open>Modelled from the spec: an impulse at lever arm \<open>r\<close> changes the linear velocity
  by the impulse times the inverse mass and the angular velocity by its moment times the
  inverse inertia.\<close>
definition nvBody_apply_impulse :: "nvBody \<Rightarrow> nvVector2 \<Rightarrow> nvVector2 \<Rightarrow> nvBody" where
  "nvBody_apply_impulse body impulse r =
     body\<lparr>linear_velocity :=
            nvVector2_add (linear_velocity body) (nvVector2_mul impulse (invmass body)),
          angular_velocity :=
            angular_velocity body + nvVector2_cross r impulse * invinertia body\<rparr>"

text \<open>Modelled from the spec: a pseudo-impulse acts in the same way on position and
  orientation and leaves the velocities alone.\<close>
definition nvBody_apply_pseudo_impulse :: "nvBody \<Rightarrow> nvVector2 \<Rightarrow> nvVector2 \<Rightarrow> nvBody" where
  "nvBody_apply_pseudo_impulse body impulse r =
     body\<lparr>body_position :=
            nvVector2_add (body_position body) (nvVector2_mul impulse (invmass body)),
          body_angle := body_angle body + nvVector2_cross r impulse * invinertia body\<rparr>"

text \<open>Modelled from the spec: an impulse on a pair acts on body A with the opposite sign.
  The two bodies are written one after the other, as through two pointers into the
  registry.\<close>
definition apply_to_pair ::
  "(nvBody \<Rightarrow> nvVector2 \<Rightarrow> nvVector2 \<Rightarrow> nvBody) \<Rightarrow> (nvBody_ref \<rightharpoonup> nvBody) \<Rightarrow> nvResolution \<Rightarrow>
   nvContact \<Rightarrow> nvVector2 \<Rightarrow> (nvBody_ref \<rightharpoonup> nvBody)" where
  "apply_to_pair app bs res c impulse =
     (let bs1 = (case bs (body_a res) of
                   None \<Rightarrow> bs
                 | Some A \<Rightarrow> bs(body_a res \<mapsto> app A (nvVector2_neg impulse) (ra c)))
      in case bs1 (body_b res) of
           None \<Rightarrow> bs1
         | Some B \<Rightarrow> bs1(body_b res \<mapsto> app B impulse (rb c)))"

text \<open>Modelled from the spec: the three steps of \<open>solveVelocity\<close> for one contact point:
  relative velocity; normal impulse, accumulated and clamped to be at least 0; tangential
  impulse, accumulated and clamped to the friction cone of the normal impulse just computed.
  Each clamped difference is applied to both bodies.\<close>
definition solve_contact ::
  "(nvBody_ref \<rightharpoonup> nvBody) \<Rightarrow> nvResolution \<Rightarrow> nat \<Rightarrow>
   nvError + ((nvBody_ref \<rightharpoonup> nvBody) \<times> nvResolution)" where
  "solve_contact bs res i =
     (if length (contacts res) \<le> i then Inl (ContactIndex i)
      else
     (case bs (body_a res) of
        None \<Rightarrow> Inl (MissingHandle (body_a res))
      | Some A \<Rightarrow>
     (case bs (body_b res) of
        None \<Rightarrow> Inl (MissingHandle (body_b res))
      | Some B \<Rightarrow>
          (let c = contacts res ! i;
               rv = relative_velocity A B c;
               dn = - mass_normal c * (nvVector2_dot rv (normal res) - velocity_bias c);
               jn1 = nv_fmax (jn c + dn) 0;
               bs1 = apply_to_pair nvBody_apply_impulse bs res c
                       (nvVector2_mul (normal res) (jn1 - jn c));
               tangent = nvVector2_perp (normal res);
               dt = - mass_tangent c * nvVector2_dot rv tangent;
               f = friction res * jn1;
               jt1 = nv_fmax (- f) (nv_fmin (jt c + dt) f);
               bs2 = apply_to_pair nvBody_apply_impulse bs1 res c
                       (nvVector2_mul tangent (jt1 - jt c))
           in Inr (bs2, res\<lparr>contacts := (contacts res)[i := c\<lparr>jn := jn1, jt := jt1\<rparr>]\<rparr>)))))"

text \<open>Modelled from the spec: the position correction for one contact point: a
  pseudo-impulse along the normal, accumulated in \<open>jb\<close>, moves the two bodies and leaves
  their velocities alone.\<close>
definition correct_contact ::
  "nvSettings \<Rightarrow> (nvBody_ref \<rightharpoonup> nvBody) \<Rightarrow> nvResolution \<Rightarrow> nat \<Rightarrow>
   nvError + ((nvBody_ref \<rightharpoonup> nvBody) \<times> nvResolution)" where
  "correct_contact cfg bs res i =
     (if length (contacts res) \<le> i then Inl (ContactIndex i)
      else
     (case bs (body_a res) of
        None \<Rightarrow> Inl (MissingHandle (body_a res))
      | Some A \<Rightarrow>
     (case bs (body_b res) of
        None \<Rightarrow> Inl (MissingHandle (body_b res))
      | Some B \<Rightarrow>
          (let c = contacts res ! i;
               db = pseudo_impulse cfg A B (normal res) c;
               bs1 = apply_to_pair nvBody_apply_pseudo_impulse bs res c
                       (nvVector2_mul (normal res) db)
           in Inr (bs1, res\<lparr>contacts := (contacts res)[i := c\<lparr>jb := jb c + db\<rparr>]\<rparr>)))))"

text \<open>Modelled from the spec: the loop over the contact points of a record, given as the
  list of their indices. The first fatal error ends it.\<close>
fun each_contact ::
  "((nvBody_ref \<rightharpoonup> nvBody) \<Rightarrow> nvResolution \<Rightarrow> nat \<Rightarrow>
      nvError + ((nvBody_ref \<rightharpoonup> nvBody) \<times> nvResolution)) \<Rightarrow>
   (nvBody_ref \<rightharpoonup> nvBody) \<Rightarrow> nvResolution \<Rightarrow> nat list \<Rightarrow>
   nvError + ((nvBody_ref \<rightharpoonup> nvBody) \<times> nvResolution)" where
  "each_contact step bs res [] = Inr (bs, res)"
| "each_contact step bs res (i # is) =
     (case step bs res i of
        Inl err \<Rightarrow> Inl err
      | Inr (bs', res') \<Rightarrow> each_contact step bs' res' is)"

text \<open>Modelled from the spec: every contact point in use of a record is visited once, in
  the order \<open>i = 0 ..< contact_count\<close>.\<close>
definition each_contact_of ::
  "((nvBody_ref \<rightharpoonup> nvBody) \<Rightarrow> nvResolution \<Rightarrow> nat \<Rightarrow>
      nvError + ((nvBody_ref \<rightharpoonup> nvBody) \<times> nvResolution)) \<Rightarrow>
   (nvBody_ref \<rightharpoonup> nvBody) \<Rightarrow> nvResolution \<Rightarrow>
   nvError + ((nvBody_ref \<rightharpoonup> nvBody) \<times> nvResolution)" where
  "each_contact_of step bs res = each_contact step bs res [0 ..< unat (contact_count res)]"

text \<open>Modelled from the spec: the loop over the records, in registration order.\<close>
fun each_record ::
  "((nvBody_ref \<rightharpoonup> nvBody) \<Rightarrow> nvResolution \<Rightarrow> nat \<Rightarrow>
      nvError + ((nvBody_ref \<rightharpoonup> nvBody) \<times> nvResolution)) \<Rightarrow>
   (nvBody_ref \<rightharpoonup> nvBody) \<Rightarrow> ((nvBody_ref \<times> nvBody_ref) \<times> nvResolution) list \<Rightarrow>
   nvError + ((nvBody_ref \<rightharpoonup> nvBody) \<times> ((nvBody_ref \<times> nvBody_ref) \<times> nvResolution) list)" where
  "each_record step bs [] = Inr (bs, [])"
| "each_record step bs ((pair, res) # rest) =
     (case each_contact_of step bs res of
        Inl err \<Rightarrow> Inl err
      | Inr (bs', res') \<Rightarrow>
          (case each_record step bs' rest of
             Inl err \<Rightarrow> Inl err
           | Inr (bs'', rest') \<Rightarrow> Inr (bs'', (pair, res') # rest')))"

text \<open>Modelled from the spec: one pass over all records of a space.\<close>
definition run_pass ::
  "((nvBody_ref \<rightharpoonup> nvBody) \<Rightarrow> nvResolution \<Rightarrow> nat \<Rightarrow>
      nvError + ((nvBody_ref \<rightharpoonup> nvBody) \<times> nvResolution)) \<Rightarrow>
   nvSpace \<Rightarrow> nvError + nvSpace" where
  "run_pass step space =
     (case each_record step (bodies space) (resolutions space) of
        Inl err \<Rightarrow> Inl err
      | Inr (bs, rs) \<Rightarrow> Inr (space\<lparr>bodies := bs, resolutions := rs\<rparr>))"

text \<open>Modelled from the spec: \<open>k\<close> velocity passes, one after the other.\<close>
fun solve_passes :: "nat \<Rightarrow> nvSpace \<Rightarrow> nvError + nvSpace" where
  "solve_passes 0 space = Inr space"
| "solve_passes (Suc k) space =
     (case run_pass solve_contact space of
        Inl err \<Rightarrow> Inl err
      | Inr space' \<Rightarrow> solve_passes k space')"

text \<open>Modelled from the spec: \<open>ConstraintSolver.solveVelocity(records, iterations)\<close>; a
  negative iteration count is a fatal configuration error.\<close>
definition ConstraintSolver_solveVelocity :: "nvSpace \<Rightarrow> int \<Rightarrow> nvError + nvSpace" where
  "ConstraintSolver_solveVelocity space iterations =
     (if iterations < 0 then Inl (InvalidIterations iterations)
      else solve_passes (nat iterations) space)"

text \<open>Modelled from the spec: \<open>ConstraintSolver.applyPositionCorrection(records)\<close>, a
  single pass.\<close>
definition ConstraintSolver_applyPositionCorrection :: "nvSpace \<Rightarrow> nvError + nvSpace" where
  "ConstraintSolver_applyPositionCorrection space =
     run_pass (correct_contact (settings space)) space"

section \<open>Lifetime of a space\<close>

text \<open>A step on one contact point keeps the shape of the record when it leaves the length
  of the array and the count as they were.\<close>
definition keeps_shape ::
  "((nvBody_ref \<rightharpoonup> nvBody) \<Rightarrow> nvResolution \<Rightarrow> nat \<Rightarrow>
      nvError + ((nvBody_ref \<rightharpoonup> nvBody) \<times> nvResolution)) \<Rightarrow> bool" where
  "keeps_shape step \<longleftrightarrow>
     (\<forall>bs res i bs' res'. step bs res i = Inr (bs', res') \<longrightarrow>
        length (contacts res') = length (contacts res) \<and>
        contact_count res' = contact_count res)"

definition nvSpace_wf :: "nvSpace \<Rightarrow> bool" where
  "nvSpace_wf space \<longleftrightarrow> list_all (\<lambda>entry. nvResolution_wf (snd entry)) (resolutions space)"

text \<open>The spaces that arise: a space starts with an empty cache; the operations of the
  cache and of the solver act on it; the driver changes the body registry as it likes
  (bodies are added, integrated and removed outside this core).\<close>
inductive nvSpace_reachable :: "nvSpace \<Rightarrow> bool" where
  start: "resolutions space = [] \<Longrightarrow> nvSpace_reachable space"
| update: "nvSpace_reachable space \<Longrightarrow> ResolutionCache_update space pair m = Inr space' \<Longrightarrow>
     nvSpace_reachable space'"
| evict: "nvSpace_reachable space \<Longrightarrow> nvSpace_reachable (ResolutionCache_evict space pair)"
| solve: "nvSpace_reachable space \<Longrightarrow> ConstraintSolver_solveVelocity space k = Inr space' \<Longrightarrow>
     nvSpace_reachable space'"
| correct: "nvSpace_reachable space \<Longrightarrow>
     ConstraintSolver_applyPositionCorrection space = Inr space' \<Longrightarrow> nvSpace_reachable space'"
| registry: "nvSpace_reachable space \<Longrightarrow> nvSpace_reachable (space\<lparr>bodies := bs\<rparr>)"

section \<open>A worked scenario\<close>

text \<open>The scenario of the spec: two bodies with friction 0.3 and 0.5, mixed by MUL, that
  overlap by 0.1 in one contact point; body B moves towards body A and slides along it.
  The parameters of the model are the simplest ones: unit effective masses and no bias.\<close>
definition demo_settings :: nvSettings where
  "demo_settings =
     \<lparr>mix_mode = nvCoefficientMix_MUL, cached_lifetime = 3, match_threshold = 1 / 10,
      effective_mass = (\<lambda>A B r_a r_b d. 1),
      restitution_bias = (\<lambda>e A B r_a r_b n. 0),
      penetration_bias = (\<lambda>d. d),
      pseudo_impulse = (\<lambda>A B n c. 0)\<rparr>"

definition demo_body_a :: nvBody where
  "demo_body_a =
     \<lparr>body_position = (0, 0), body_angle = 0, linear_velocity = (0, 0), angular_velocity = 0,
      invmass = 1, invinertia = 1, body_friction = 3 / 10, body_restitution = 0\<rparr>"

definition demo_body_b :: nvBody where
  "demo_body_b =
     \<lparr>body_position = (1, 0), body_angle = 0, linear_velocity = (- 1, 1), angular_velocity = 0,
      invmass = 1, invinertia = 1, body_friction = 1 / 2, body_restitution = 0\<rparr>"

definition demo_space :: nvSpace where
  "demo_space =
     \<lparr>settings = demo_settings,
      bodies = [0 \<mapsto> demo_body_a, 1 \<mapsto> demo_body_b],
      resolutions = []\<rparr>"

definition demo_manifold :: nvManifold where
  "demo_manifold =
     \<lparr>m_collision = True, m_normal = (1, 0), m_depth = 1 / 10, m_points = OnePoint (1 / 2, 0)\<rparr>"

definition demo_separated :: nvManifold where
  "demo_separated =
     \<lparr>m_collision = False, m_normal = (1, 0), m_depth = 0, m_points = NoPoint\<rparr>"

text \<open>The record that \<open>update\<close> creates for the pair \<open>(0, 1)\<close> in the scenario.\<close>
definition demo_contact :: nvContact where
  "demo_contact =
     \<lparr>position = (1 / 2, 0), ra = (1 / 2, 0), rb = (- 1 / 2, 0), velocity_bias = 0,
      position_bias = 1 / 10, mass_normal = 1, mass_tangent = 1, jn = 0, jb = 0, jt = 0\<rparr>"

definition demo_resolution :: nvResolution where
  "demo_resolution =
     \<lparr>collision = True, body_a = 0, body_b = 1, normal = (1, 0), depth = 1 / 10,
      friction = 3 / 20, state = nvResolutionState_FIRST, lifetime = 3,
      contacts = [demo_contact, nvContact_zero], contact_count = 1\<rparr>"

definition demo_first :: nvSpace where
  "demo_first = demo_space\<lparr>resolutions := [((0, 1), demo_resolution)]\<rparr>"

section \<open>Solved contact points\<close>

text \<open>What a velocity pass leaves behind in a contact point of a record with mixed friction
  \<open>f\<close>: a normal impulse that does not pull and a tangential impulse inside the friction
  cone \<open>f * jn\<close>, whenever that bound is not negative.\<close>
definition solved :: "nv_float \<Rightarrow> nvContact \<Rightarrow> bool" where
  "solved f c \<longleftrightarrow> 0 \<le> jn c \<and> (0 \<le> f * jn c \<longrightarrow> \<bar>jt c\<bar> \<le> f * jn c)"

definition all_solved :: "nvSpace \<Rightarrow> bool" where
  "all_solved space \<longleftrightarrow>
     list_all (\<lambda>entry. list_all (solved (friction (snd entry))) (active_contacts (snd entry)))
       (resolutions space)"

text \<open>Every record refers to bodies that are in the registry.\<close>
definition handles_present ::
  "(nvBody_ref \<rightharpoonup> nvBody) \<Rightarrow> ((nvBody_ref \<times> nvBody_ref) \<times> nvResolution) list \<Rightarrow> bool" where
  "handles_present bs rs \<longleftrightarrow>
     list_all (\<lambda>entry. bs (body_a (snd entry)) \<noteq> None \<and> bs (body_b (snd entry)) \<noteq> None) rs"

text \<open>The scenario after one velocity pass: the normal impulse stops the approach, the
  tangential impulse is cut to the friction cone \<open>0.15 * jn\<close>.\<close>
definition demo_solved_contact :: nvContact where
  "demo_solved_contact = demo_contact\<lparr>jn := 1, jt := - 3 / 20\<rparr>"

definition demo_solved_resolution :: nvResolution where
  "demo_solved_resolution = demo_resolution\<lparr>contacts := [demo_solved_contact, nvContact_zero]\<rparr>"

text \<open>The scenario one tick before eviction: the record is cached with one tick left.\<close>
definition demo_expiring :: nvSpace where
  "demo_expiring =
     demo_space\<lparr>resolutions :=
       [((0, 1), demo_resolution\<lparr>collision := False, state := nvResolutionState_CACHED,
                                lifetime := 1\<rparr>)]\<rparr>"

definition demo_solved :: nvSpace where
  "demo_solved =
     demo_space
       \<lparr>bodies := [0 \<mapsto> demo_body_a\<lparr>linear_velocity := (- 1, 3 / 20), angular_velocity := 3 / 40\<rparr>,
                   1 \<mapsto> demo_body_b\<lparr>linear_velocity := (0, 17 / 20), angular_velocity := 3 / 40\<rparr>],
        resolutions := [((0, 1), demo_solved_resolution)]\<rparr>"

text \<open>Consecutive ticks in which the narrow phase reports the same manifold for a pair.\<close>
fun update_ticks ::
  "nat \<Rightarrow> nvSpace \<Rightarrow> nvBody_ref \<times> nvBody_ref \<Rightarrow> nvManifold \<Rightarrow> nvError + nvSpace" where
  "update_ticks 0 space pair m = Inr space"
| "update_ticks (Suc n) space pair m =
     (case ResolutionCache_update space pair m of
        Inl err \<Rightarrow> Inl err
      | Inr space' \<Rightarrow> update_ticks n space' pair m)"

section \<open>Friction coefficients that are not negative\<close>

text \<open>A Coulomb friction coefficient is not negative. \<open>materials_nonneg\<close> says so of every
  registered body, \<open>frictions_nonneg\<close> of the bodies and of the mixed coefficient of every
  record of a space.\<close>
definition materials_nonneg :: "(nvBody_ref \<rightharpoonup> nvBody) \<Rightarrow> bool" where
  "materials_nonneg bs \<longleftrightarrow> (\<forall>h b. bs h = Some b \<longrightarrow> 0 \<le> body_friction b)"

definition frictions_nonneg :: "nvSpace \<Rightarrow> bool" where
  "frictions_nonneg space \<longleftrightarrow>
     materials_nonneg (bodies space) \<and>
     list_all (\<lambda>entry. 0 \<le> friction (snd entry)) (resolutions space)"

text \<open>A step on one contact point keeps the friction coefficients when it leaves the one of
  the record as it was and those of the bodies not negative.\<close>
definition keeps_friction ::
  "((nvBody_ref \<rightharpoonup> nvBody) \<Rightarrow> nvResolution \<Rightarrow> nat \<Rightarrow>
      nvError + ((nvBody_ref \<rightharpoonup> nvBody) \<times> nvResolution)) \<Rightarrow> bool" where
  "keeps_friction step \<longleftrightarrow>
     (\<forall>bs res i bs' res'. step bs res i = Inr (bs', res') \<longrightarrow>
        friction res' = friction res \<and> (materials_nonneg bs \<longrightarrow> materials_nonneg bs'))"

text \<open>The spaces that arise when every body that the driver registers has a friction
  coefficient that is not negative: as \<open>nvSpace_reachable\<close>, with that condition on the
  registry.\<close>
inductive nvSpace_physical :: "nvSpace \<Rightarrow> bool" where
  start: "resolutions space = [] \<Longrightarrow> materials_nonneg (bodies space) \<Longrightarrow> nvSpace_physical space"
| update: "nvSpace_physical space \<Longrightarrow> ResolutionCache_update space pair m = Inr space' \<Longrightarrow>
     nvSpace_physical space'"
| evict: "nvSpace_physical space \<Longrightarrow> nvSpace_physical (ResolutionCache_evict space pair)"
| solve: "nvSpace_physical space \<Longrightarrow> ConstraintSolver_solveVelocity space k = Inr space' \<Longrightarrow>
     nvSpace_physical space'"
| correct: "nvSpace_physical space \<Longrightarrow>
     ConstraintSolver_applyPositionCorrection space = Inr space' \<Longrightarrow> nvSpace_physical space'"
| registry: "nvSpace_physical space \<Longrightarrow> materials_nonneg bs \<Longrightarrow>
     nvSpace_physical (space\<lparr>bodies := bs\<rparr>)"

section \<open>A scenario with an unknown mixing mode\<close>

text \<open>The worked scenario in a space whose mixing mode is 5, none of the five modes: the
  empty space, the space with the record of the pair \<open>(0, 1)\<close>, and that space after a
  velocity pass and after a tick of separation.\<close>
definition unchecked_settings :: nvSettings where
  "unchecked_settings = demo_settings\<lparr>mix_mode := 5\<rparr>"

definition unchecked_space :: nvSpace where
  "unchecked_space = demo_space\<lparr>settings := unchecked_settings\<rparr>"

definition unchecked_first :: nvSpace where
  "unchecked_first = demo_first\<lparr>settings := unchecked_settings\<rparr>"

definition unchecked_solved :: nvSpace where
  "unchecked_solved = demo_solved\<lparr>settings := unchecked_settings\<rparr>"

definition unchecked_cached :: nvSpace where
  "unchecked_cached =
     unchecked_space\<lparr>resolutions :=
       [((0, 1), demo_resolution\<lparr>collision := False, state := nvResolutionState_CACHED,
                                lifetime := 2\<rparr>)]\<rparr>"

section \<open>Array lemmas\<close>

lemmas nvCoefficientMix_defs =
  nvCoefficientMix_AVG_def nvCoefficientMix_MUL_def nvCoefficientMix_SQRT_def
  nvCoefficientMix_MIN_def nvCoefficientMix_MAX_def

lemma nv_mix_coefficients_unfold:
  "nv_mix_coefficients a b mix =
     (if mix = nvCoefficientMix_AVG then Inr ((a + b) / 2)
      else if mix = nvCoefficientMix_MUL then Inr (a * b)
      else if mix = nvCoefficientMix_SQRT then Inr (nv_sqrt (a * b))
      else if mix = nvCoefficientMix_MIN then Inr (nv_fmin a b)
      else if mix = nvCoefficientMix_MAX then Inr (nv_fmax a b)
      else Inl (NV_ERROR ''Unknown coefficient mixing function.''))"
  by (simp add: nv_mix_coefficients_def nv_mix_coefficients_with_def NV_ERROR_macro_def)

lemma size_t_succ: "(i::size_t) < n \<Longrightarrow> unat (i + 1) = Suc (unat i)"
  by unat_arith

lemma size_t_pred: "(i::size_t) < n \<Longrightarrow> unat (n - 1) = unat n - 1"
  by unat_arith

lemma nvArray_pop_loop_closed:
  "i \<le> index \<Longrightarrow>
   nvArray_pop_loop array index i =
     (if index < arr_size array
      then (arr_data array ! unat index, nvArray_swapped_out array index)
      else (NULL, array))"
proof (induction array index i rule: nvArray_pop_loop.induct)
  case (1 array index i)
  show ?case
  proof (cases "i < arr_size array")
    case False
    with "1.prems" have "\<not> index < arr_size array" by simp
    with False show ?thesis by (simp add: nvArray_pop_loop.simps [of array index i])
  next
    case lt: True
    show ?thesis
    proof (cases "i = index")
      case True
      with lt show ?thesis
        by (subst nvArray_pop_loop.simps) (simp add: nvArray_swapped_out_def Let_def)
    next
      case False
      with "1.prems" have "i < index" by simp
      then have "i + 1 \<le> index" by (rule inc_le)
      with "1.IH" [OF lt False] lt False show ?thesis
        by (simp add: nvArray_pop_loop.simps [of array index i])
    qed
  qed
qed

lemma nvArray_swapped_out_elems:
  assumes "nvArray_valid array" and "i < arr_size array"
  shows "nvArray_elems (nvArray_swapped_out array i) =
           butlast ((nvArray_elems array)[unat i := last (nvArray_elems array)])"
proof -
  let ?n = "unat (arr_size array)"
  let ?d = "arr_data array"
  from assms(2) have i: "unat i < ?n" by (simp add: word_less_nat_alt)
  from assms(2) have n1: "unat (arr_size array - 1) = ?n - 1" by (rule size_t_pred)
  from assms(1) have len: "?n \<le> length ?d" by (simp add: nvArray_valid_def)
  from i len have ne: "take ?n ?d \<noteq> []" by auto
  have last: "last (take ?n ?d) = ?d ! (?n - 1)"
  proof -
    have "last (take ?n ?d) = take ?n ?d ! (length (take ?n ?d) - 1)"
      using ne by (rule last_conv_nth)
    also have "length (take ?n ?d) = ?n" using len by simp
    also have "take ?n ?d ! (?n - 1) = ?d ! (?n - 1)" using i by simp
    finally show ?thesis .
  qed
  have "take (?n - 1) (?d[unat i := ?d ! (?n - 1), ?n - 1 := NULL]) =
        take (?n - 1) (?d[unat i := ?d ! (?n - 1)])"
    by simp
  also have "\<dots> = butlast (take ?n (?d[unat i := ?d ! (?n - 1)]))"
    using len by (simp add: butlast_take)
  also have "\<dots> = butlast ((take ?n ?d)[unat i := ?d ! (?n - 1)])"
    by (simp add: take_update_swap)
  finally show ?thesis
    by (simp add: nvArray_elems_def nvArray_swapped_out_def n1 last)
qed


lemma nvArray_swapped_out_valid:
  "nvArray_valid array \<Longrightarrow> i < arr_size array \<Longrightarrow> nvArray_valid (nvArray_swapped_out array i)"
  by (simp add: nvArray_valid_def nvArray_swapped_out_def size_t_pred)

lemma nvArray_remove_loop_found:
  "i \<le> k \<Longrightarrow> k < arr_size array \<Longrightarrow> arr_data array ! unat k = elem \<Longrightarrow>
   (\<forall>j. i \<le> j \<and> j < k \<longrightarrow> arr_data array ! unat j \<noteq> elem) \<Longrightarrow>
   nvArray_remove_loop array elem i = (k, nvArray_swapped_out array k)"
proof (induction array elem i rule: nvArray_remove_loop.induct)
  case (1 array elem i)
  from "1.prems"(1,2) have lt: "i < arr_size array" by simp
  show ?case
  proof (cases "i = k")
    case True
    with lt "1.prems"(3) show ?thesis
      by (subst nvArray_remove_loop.simps) (simp add: nvArray_swapped_out_def Let_def)
  next
    case False
    with "1.prems"(1) have ik: "i < k" by simp
    with "1.prems"(4) have ne: "arr_data array ! unat i \<noteq> elem" by simp
    from ik have le: "i + 1 \<le> k" by (rule inc_le)
    have "\<forall>j. i + 1 \<le> j \<and> j < k \<longrightarrow> arr_data array ! unat j \<noteq> elem"
    proof (intro allI impI)
      fix j assume j: "i + 1 \<le> j \<and> j < k"
      from ik have "i \<le> i + 1" by unat_arith
      with j have "i \<le> j" by auto
      with j "1.prems"(4) show "arr_data array ! unat j \<noteq> elem" by simp
    qed
    with "1.IH" [OF lt ne le "1.prems"(2,3)] lt ne show ?thesis
      by (simp add: nvArray_remove_loop.simps [of array elem i])
  qed
qed

lemma nvArray_remove_loop_absent:
  "(\<forall>j. i \<le> j \<and> j < arr_size array \<longrightarrow> arr_data array ! unat j \<noteq> elem) \<Longrightarrow>
   nvArray_remove_loop array elem i = (- 1, array)"
proof (induction array elem i rule: nvArray_remove_loop.induct)
  case (1 array elem i)
  show ?case
  proof (cases "i < arr_size array")
    case False
    then show ?thesis by (simp add: nvArray_remove_loop.simps [of array elem i])
  next
    case lt: True
    with "1.prems" have ne: "arr_data array ! unat i \<noteq> elem" by simp
    have "\<forall>j. i + 1 \<le> j \<and> j < arr_size array \<longrightarrow> arr_data array ! unat j \<noteq> elem"
    proof (intro allI impI)
      fix j assume j: "i + 1 \<le> j \<and> j < arr_size array"
      from lt have "i \<le> i + 1" by unat_arith
      with j have "i \<le> j" by auto
      with j "1.prems" show "arr_data array ! unat j \<noteq> elem" by simp
    qed
    with "1.IH" [OF lt ne] lt ne show ?thesis
      by (simp add: nvArray_remove_loop.simps [of array elem i])
  qed
qed

lemma nvArray_elems_nth:
  "j < unat (arr_size array) \<Longrightarrow> nvArray_elems array ! j = arr_data array ! j"
  by (simp add: nvArray_elems_def)

lemma nvArray_elems_length:
  "nvArray_valid array \<Longrightarrow> length (nvArray_elems array) = unat (arr_size array)"
  by (simp add: nvArray_elems_def nvArray_valid_def)

lemma size_t_of_nat: "n < unat (m::size_t) \<Longrightarrow> unat (of_nat n :: size_t) = n"
  by (rule le_unat_uoi [of n m]) simp


section \<open>Theorems\<close>

text \<open>
  Claim C1. For every pair of coefficients and every mixing mode the result does not depend
  on the order of the two coefficients: \<open>nv_mix_coefficients a b mode = nv_mix_coefficients b a mode\<close>.
  The equation holds for every selector, so in particular for AVG, MUL, SQRT, MIN and MAX.
\<close>
theorem nv_mix_coefficients_commutative:
  "nv_mix_coefficients a b mix = nv_mix_coefficients b a mix"
  by (simp add: nv_mix_coefficients_unfold nv_fmin_def nv_fmax_def add.commute mult.commute
      min.commute max.commute)

lemma sqrt_two_fifths: "0.63245 \<le> sqrt (0.4::real) \<and> sqrt (0.4::real) < 0.63255"
proof
  have "(0.63245::real)\<^sup>2 \<le> 0.4" by (simp add: power2_eq_square)
  then show "0.63245 \<le> sqrt (0.4::real)" by (rule real_le_rsqrt)
  have "(0.4::real) < 0.63255\<^sup>2" by (simp add: power2_eq_square)
  then show "sqrt (0.4::real) < 0.63255" by (rule real_less_lsqrt [rotated]) simp
qed

text \<open>
  Claim C2. Per mode, \<open>nv_mix_coefficients\<close> returns: AVG the mean \<open>(a + b) / 2\<close>, MUL the
  product, SQRT the square root of the product (for non-negative \<open>a\<close> and \<open>b\<close>, where it is the
  non-negative number whose square is \<open>a * b\<close>), MIN the minimum and MAX the maximum. The
  example of the spec: SQRT of 0.5 and 0.8 lies in \<open>[0.63245, 0.63255)\<close>, so it is 0.6325
  to four decimals.
\<close>
theorem nv_mix_coefficients_modes:
  "nv_mix_coefficients a b nvCoefficientMix_AVG = Inr ((a + b) / 2) \<and>
   nv_mix_coefficients a b nvCoefficientMix_MUL = Inr (a * b) \<and>
   (0 \<le> a \<and> 0 \<le> b \<longrightarrow>
      (\<exists>r. nv_mix_coefficients a b nvCoefficientMix_SQRT = Inr r \<and> r = sqrt (a * b) \<and>
           0 \<le> r \<and> r * r = a * b)) \<and>
   nv_mix_coefficients a b nvCoefficientMix_MIN = Inr (min a b) \<and>
   nv_mix_coefficients a b nvCoefficientMix_MAX = Inr (max a b) \<and>
   (\<exists>r. nv_mix_coefficients 0.5 0.8 nvCoefficientMix_SQRT = Inr r \<and>
        0.63245 \<le> r \<and> r < 0.63255)"
proof -
  have "(0.5::real) * 0.8 = 0.4" by simp
  with sqrt_two_fifths show ?thesis
    by (simp add: nv_mix_coefficients_unfold nvCoefficientMix_defs nv_sqrt_def nv_fmin_def
        nv_fmax_def)
qed

theorem nv_mix_coefficients_modes_witness:
  "(0::real) \<le> 2 \<and> (0::real) \<le> 8 \<and> nv_mix_coefficients 2 8 nvCoefficientMix_SQRT = Inr 4"
proof -
  have "sqrt (16::real) = 4" using real_sqrt_abs [of 4] by simp
  with nv_mix_coefficients_modes [of 2 8] show ?thesis by simp
qed

text \<open>
  Claim C9. On a valid array, \<open>nvArray_pop array index\<close> with \<open>index \<ge> size\<close> returns
  \<open>NULL\<close> and the array as it was. With \<open>index < size\<close> it returns the element of that slot,
  the size drops by one, and the elements become the old ones with the last element written
  over slot \<open>index\<close> and the last slot cut off: the former last element now sits at
  \<open>index\<close> (when that slot is still inside the array), so the order of the elements is
  not kept.
\<close>
theorem nvArray_pop_spec:
  assumes "nvArray_valid array"
  shows "(arr_size array \<le> index \<longrightarrow> nvArray_pop array index = (NULL, array)) \<and>
         (index < arr_size array \<longrightarrow>
            (case nvArray_pop array index of (elem, array') \<Rightarrow>
               elem = nvArray_elems array ! unat index \<and>
               arr_size array' = arr_size array - 1 \<and>
               length (nvArray_elems array') = length (nvArray_elems array) - 1 \<and>
               nvArray_elems array' =
                 butlast ((nvArray_elems array)[unat index := last (nvArray_elems array)]) \<and>
               (unat index < length (nvArray_elems array') \<longrightarrow>
                  nvArray_elems array' ! unat index = last (nvArray_elems array)) \<and>
               nvArray_valid array'))"
proof (intro conjI impI)
  assume "arr_size array \<le> index"
  then have "\<not> index < arr_size array" by simp
  then show "nvArray_pop array index = (NULL, array)"
    by (simp add: nvArray_pop_def nvArray_pop_loop_closed)
next
  assume lt: "index < arr_size array"
  let ?a = "nvArray_swapped_out array index"
  let ?xs = "nvArray_elems array"
  from lt have pop: "nvArray_pop array index = (arr_data array ! unat index, ?a)"
    by (simp add: nvArray_pop_def nvArray_pop_loop_closed)
  from lt have i: "unat index < unat (arr_size array)" by (simp add: word_less_nat_alt)
  have el: "nvArray_elems ?a = butlast (?xs[unat index := last ?xs])"
    using assms lt by (rule nvArray_swapped_out_elems)
  have len: "length (nvArray_elems ?a) = length ?xs - 1"
    by (simp add: el)
  have nth: "unat index < length (nvArray_elems ?a) \<longrightarrow>
             nvArray_elems ?a ! unat index = last ?xs"
    by (simp add: el nth_butlast)
  have sz: "arr_size ?a = arr_size array - 1" by (simp add: nvArray_swapped_out_def)
  have el0: "arr_data array ! unat index = ?xs ! unat index"
    using i by (simp add: nvArray_elems_nth)
  have va: "nvArray_valid ?a" using assms lt by (rule nvArray_swapped_out_valid)
  show "case nvArray_pop array index of (elem, array') \<Rightarrow>
               elem = nvArray_elems array ! unat index \<and>
               arr_size array' = arr_size array - 1 \<and>
               length (nvArray_elems array') = length (nvArray_elems array) - 1 \<and>
               nvArray_elems array' =
                 butlast ((nvArray_elems array)[unat index := last (nvArray_elems array)]) \<and>
               (unat index < length (nvArray_elems array') \<longrightarrow>
                  nvArray_elems array' ! unat index = last (nvArray_elems array)) \<and>
               nvArray_valid array'"
    unfolding pop prod.case using el0 sz len el nth va by blast
qed


theorem nvArray_pop_spec_witness:
  "nvArray_valid \<lparr>arr_size = 3, arr_max = 4, arr_data = [10, 20, 30, 7]\<rparr> \<and>
   (3::size_t) \<le> 5 \<and>
   nvArray_pop \<lparr>arr_size = 3, arr_max = 4, arr_data = [10, 20, 30, 7]\<rparr> 5 =
     (NULL, \<lparr>arr_size = 3, arr_max = 4, arr_data = [10, 20, 30, 7]\<rparr>) \<and>
   (0::size_t) < 3 \<and>
   fst (nvArray_pop \<lparr>arr_size = 3, arr_max = 4, arr_data = [10, 20, 30, 7]\<rparr> 0) = 10 \<and>
   nvArray_elems (snd (nvArray_pop \<lparr>arr_size = 3, arr_max = 4, arr_data = [10, 20, 30, 7]\<rparr> 0))
     = [30, 20]"
  using nvArray_pop_spec [of "\<lparr>arr_size = 3, arr_max = 4, arr_data = [10, 20, 30, 7]\<rparr>" 5]
    nvArray_pop_spec [of "\<lparr>arr_size = 3, arr_max = 4, arr_data = [10, 20, 30, 7]\<rparr>" 0]
  by (auto simp: nvArray_valid_def nvArray_elems_def split: prod.splits)

text \<open>
  Claim C10. On a valid array, \<open>nvArray_remove array elem\<close> for an element that occurs
  returns the index of its first occurrence and removes it by swapping in the last element;
  for an element that does not occur it returns \<open>-1\<close> as a \<open>size_t\<close>, which is
  \<open>2^64 - 1\<close> and never below \<open>size\<close>, and the array as it was.
\<close>
theorem nvArray_remove_spec:
  assumes "nvArray_valid array"
  shows "(elem \<in> set (nvArray_elems array) \<longrightarrow>
            (case nvArray_remove array elem of (i, array') \<Rightarrow>
               i < arr_size array \<and>
               nvArray_elems array ! unat i = elem \<and>
               (\<forall>j < unat i. nvArray_elems array ! j \<noteq> elem) \<and>
               arr_size array' = arr_size array - 1 \<and>
               nvArray_elems array' =
                 butlast ((nvArray_elems array)[unat i := last (nvArray_elems array)]) \<and>
               nvArray_valid array')) \<and>
         (elem \<notin> set (nvArray_elems array) \<longrightarrow>
            nvArray_remove array elem = (- 1, array) \<and>
            unat (- 1 :: size_t) = 2 ^ 64 - 1 \<and>
            \<not> (- 1 :: size_t) < arr_size array)"
proof (intro conjI impI)
  let ?xs = "nvArray_elems array"
  assume "elem \<in> set ?xs"
  then obtain ys zs where split: "?xs = ys @ elem # zs" and fresh: "elem \<notin> set ys"
    by (auto dest: split_list_first)
  define k :: size_t where "k = of_nat (length ys)"
  have len: "length ?xs = unat (arr_size array)"
    using assms by (rule nvArray_elems_length)
  from split have "length ys < length ?xs" by simp
  with len have ys: "length ys < unat (arr_size array)" by simp
  then have uk: "unat k = length ys" unfolding k_def by (rule size_t_of_nat)
  with ys have klt: "k < arr_size array" by (simp add: word_less_nat_alt)
  have at: "?xs ! unat k = elem" by (simp add: uk split)
  with ys uk have dat: "arr_data array ! unat k = elem" by (simp add: nvArray_elems_nth)
  have before: "\<forall>j < unat k. ?xs ! j \<noteq> elem"
  proof (intro allI impI)
    fix j assume "j < unat k"
    with uk have j: "j < length ys" by simp
    then have "?xs ! j = ys ! j" by (simp add: split nth_append)
    with j fresh show "?xs ! j \<noteq> elem" by (metis nth_mem)
  qed
  have "\<forall>j. 0 \<le> j \<and> j < k \<longrightarrow> arr_data array ! unat j \<noteq> elem"
  proof (intro allI impI)
    fix j :: size_t assume "0 \<le> j \<and> j < k"
    then have j: "unat j < unat k" by (simp add: word_less_nat_alt)
    with uk ys have "unat j < unat (arr_size array)" by simp
    then have "arr_data array ! unat j = ?xs ! unat j" by (simp add: nvArray_elems_nth)
    with before j show "arr_data array ! unat j \<noteq> elem" by simp
  qed
  with klt dat have rem: "nvArray_remove array elem = (k, nvArray_swapped_out array k)"
    unfolding nvArray_remove_def by (intro nvArray_remove_loop_found) simp_all
  have sz: "arr_size (nvArray_swapped_out array k) = arr_size array - 1"
    by (simp add: nvArray_swapped_out_def)
  have el: "nvArray_elems (nvArray_swapped_out array k) = butlast (?xs[unat k := last ?xs])"
    using assms klt by (rule nvArray_swapped_out_elems)
  have va: "nvArray_valid (nvArray_swapped_out array k)"
    using assms klt by (rule nvArray_swapped_out_valid)
  show "case nvArray_remove array elem of (i, array') \<Rightarrow>
               i < arr_size array \<and>
               nvArray_elems array ! unat i = elem \<and>
               (\<forall>j < unat i. nvArray_elems array ! j \<noteq> elem) \<and>
               arr_size array' = arr_size array - 1 \<and>
               nvArray_elems array' =
                 butlast ((nvArray_elems array)[unat i := last (nvArray_elems array)]) \<and>
               nvArray_valid array'"
    unfolding rem prod.case using klt at before sz el va by blast
next
  assume absent: "elem \<notin> set (nvArray_elems array)"
  have "\<forall>j. 0 \<le> j \<and> j < arr_size array \<longrightarrow> arr_data array ! unat j \<noteq> elem"
  proof (intro allI impI)
    fix j :: size_t assume "0 \<le> j \<and> j < arr_size array"
    then have j: "unat j < unat (arr_size array)" by (simp add: word_less_nat_alt)
    then have eq: "arr_data array ! unat j = nvArray_elems array ! unat j"
      by (simp add: nvArray_elems_nth)
    from j assms have "unat j < length (nvArray_elems array)"
      by (simp add: nvArray_elems_length)
    then have "nvArray_elems array ! unat j \<in> set (nvArray_elems array)" by (rule nth_mem)
    with absent eq show "arr_data array ! unat j \<noteq> elem" by auto
  qed
  then show "nvArray_remove array elem = (- 1, array)"
    unfolding nvArray_remove_def by (rule nvArray_remove_loop_absent)
next
  show "unat (- 1 :: size_t) = 2 ^ 64 - 1" 
    by (simp add: unsigned_minus_1_eq_mask mask_eq_exp_minus_1)
next
  show "\<not> (- 1 :: size_t) < arr_size array" by simp
qed

theorem nvArray_remove_spec_witness:
  "nvArray_valid \<lparr>arr_size = 3, arr_max = 4, arr_data = [10, 20, 30, 7]\<rparr> \<and>
   20 \<in> set (nvArray_elems \<lparr>arr_size = 3, arr_max = 4, arr_data = [10, 20, 30, 7]\<rparr>) \<and>
   fst (nvArray_remove \<lparr>arr_size = 3, arr_max = 4, arr_data = [10, 20, 30, 7]\<rparr> 20) < 3 \<and>
   7 \<notin> set (nvArray_elems \<lparr>arr_size = 3, arr_max = 4, arr_data = [10, 20, 30, 7]\<rparr>) \<and>
   nvArray_remove \<lparr>arr_size = 3, arr_max = 4, arr_data = [10, 20, 30, 7]\<rparr> 7 =
     (18446744073709551615, \<lparr>arr_size = 3, arr_max = 4, arr_data = [10, 20, 30, 7]\<rparr>)"
  using nvArray_remove_spec [of "\<lparr>arr_size = 3, arr_max = 4, arr_data = [10, 20, 30, 7]\<rparr>" 20]
    nvArray_remove_spec [of "\<lparr>arr_size = 3, arr_max = 4, arr_data = [10, 20, 30, 7]\<rparr>" 7]
  by (auto simp: nvArray_valid_def nvArray_elems_def split: prod.splits)

section \<open>The cache keeps its records well-formed\<close>

lemma points_list_length: "length (points_list pts) \<le> 2"
  by (cases pts) simp_all

lemma contact_count_of_points:
  "unat (of_nat (length (points_list pts)) :: 8 word) = length (points_list pts)"
  by (cases pts) simp_all

lemma store_contacts_length:
  "length array = 2 \<Longrightarrow> length cs \<le> 2 \<Longrightarrow> length (store_contacts array cs) = 2"
  by (simp add: store_contacts_def)

lemma store_contacts_take: "take (length cs) (store_contacts array cs) = cs"
  by (simp add: store_contacts_def)

lemma create_resolution_wf:
  assumes "create_resolution space pair m = Inr res"
  shows "nvResolution_wf res"
proof -
  have "length (store_contacts [nvContact_zero, nvContact_zero]
          (map f (points_list (m_points m)))) = 2" for f :: "nvVector2 \<Rightarrow> nvContact"
    by (rule store_contacts_length) (simp_all add: points_list_length)
  with assms show ?thesis
    by (auto simp: create_resolution_def nvResolution_wf_def contact_count_of_points
        points_list_length split: option.splits sum.splits)
qed

lemma refresh_resolution_wf:
  assumes "refresh_resolution space res m = Inr res'" and "nvResolution_wf res"
  shows "nvResolution_wf res'"
proof -
  from assms(2) have "length (contacts res) = 2" by (simp add: nvResolution_wf_def)
  then have "length (store_contacts (contacts res)
          (map f (points_list (m_points m)))) = 2" for f :: "nvVector2 \<Rightarrow> nvContact"
    by (rule store_contacts_length) (simp add: points_list_length)
  with assms(1) show ?thesis
    by (auto simp: refresh_resolution_def nvResolution_wf_def contact_count_of_points
        points_list_length split: option.splits sum.splits)
qed

lemma cache_resolution_wf: "nvResolution_wf res \<Longrightarrow> nvResolution_wf (cache_resolution res m)"
  by (simp add: nvResolution_wf_def cache_resolution_def)

lemma list_all_update:
  "list_all P al \<Longrightarrow> P (k, v) \<Longrightarrow> list_all P (AList.update k v al)"
  by (induction al) auto

lemma list_all_delete: "list_all P al \<Longrightarrow> list_all P (AList.delete k al)"
  by (induction al) (auto simp: AList.delete_eq)

lemma list_all_map_of:
  "list_all P al \<Longrightarrow> map_of al k = Some v \<Longrightarrow> P (k, v)"
  by (auto simp: list_all_iff dest: map_of_SomeD)

lemma ResolutionCache_update_wf:
  assumes "ResolutionCache_update space pair m = Inr space'" and "nvSpace_wf space"
  shows "nvSpace_wf space'"
proof (cases "map_of (resolutions space) pair")
  case None
  with assms(1) obtain res where cr: "create_resolution space pair m = Inr res"
    and sp: "space' = space\<lparr>resolutions := AList.update pair res (resolutions space)\<rparr>"
    by (auto simp: ResolutionCache_update_def split: sum.splits)
  from cr have "nvResolution_wf res" by (rule create_resolution_wf)
  with assms(2) show ?thesis by (simp add: sp nvSpace_wf_def list_all_update)
next
  case (Some res)
  with assms(2) have wf: "nvResolution_wf res"
    using list_all_map_of [of "\<lambda>entry. nvResolution_wf (snd entry)" "resolutions space" pair res]
    by (simp add: nvSpace_wf_def)
  show ?thesis
  proof (cases "m_collision m")
    case True
    with Some assms(1) obtain res' where rf: "refresh_resolution space res m = Inr res'"
      and sp: "space' = space\<lparr>resolutions := AList.update pair res' (resolutions space)\<rparr>"
      by (auto simp: ResolutionCache_update_def split: sum.splits)
    from rf wf have "nvResolution_wf res'" by (rule refresh_resolution_wf)
    with assms(2) show ?thesis by (simp add: sp nvSpace_wf_def list_all_update)
  next
    case False
    with Some assms(1) have
      "space' = space\<lparr>resolutions := AList.delete pair (resolutions space)\<rparr> \<or>
       space' = space\<lparr>resolutions :=
                  AList.update pair (cache_resolution res m) (resolutions space)\<rparr>"
      by (auto simp: ResolutionCache_update_def split: if_splits)
    with assms(2) cache_resolution_wf [OF wf, of m] show ?thesis
      by (auto simp: nvSpace_wf_def list_all_update list_all_delete)
  qed
qed

lemma ResolutionCache_evict_wf: "nvSpace_wf space \<Longrightarrow> nvSpace_wf (ResolutionCache_evict space pair)"
  by (simp add: nvSpace_wf_def ResolutionCache_evict_def list_all_delete)

section \<open>The solver loops\<close>

lemma each_contact_shape:
  "keeps_shape step \<Longrightarrow> each_contact step bs res is = Inr (bs', res') \<Longrightarrow>
   length (contacts res') = length (contacts res) \<and> contact_count res' = contact_count res"
proof (induction "is" arbitrary: bs res)
  case Nil
  then show ?case by simp
next
  case (Cons i "is")
  from Cons.prems(2) obtain bs1 res1 where s1: "step bs res i = Inr (bs1, res1)"
    and rest: "each_contact step bs1 res1 is = Inr (bs', res')"
    by (auto split: sum.splits)
  from Cons.prems(1) s1 have "length (contacts res1) = length (contacts res) \<and>
      contact_count res1 = contact_count res"
    unfolding keeps_shape_def by blast
  with Cons.IH [OF Cons.prems(1) rest] show ?case by simp
qed

lemma each_record_wf:
  "keeps_shape step \<Longrightarrow> each_record step bs rs = Inr (bs', rs') \<Longrightarrow>
   list_all (\<lambda>entry. nvResolution_wf (snd entry)) rs \<Longrightarrow>
   list_all (\<lambda>entry. nvResolution_wf (snd entry)) rs'"
proof (induction rs arbitrary: bs bs' rs')
  case Nil
  then show ?case by simp
next
  case (Cons entry rs)
  obtain pair res where entry: "entry = (pair, res)" by (cases entry)
  from Cons.prems(2) obtain bs1 res1 bs2 rest
    where c: "each_contact step bs res [0 ..< unat (contact_count res)] = Inr (bs1, res1)"
      and r: "each_record step bs1 rs = Inr (bs2, rest)"
      and out: "rs' = (pair, res1) # rest"
    by (auto simp: entry each_contact_of_def split: sum.splits)
  from Cons.prems(1) c have "length (contacts res1) = length (contacts res) \<and>
      contact_count res1 = contact_count res"
    by (rule each_contact_shape)
  with Cons.prems(3) have "nvResolution_wf res1" by (simp add: entry nvResolution_wf_def)
  moreover from Cons.prems(3) have "list_all (\<lambda>entry. nvResolution_wf (snd entry)) rs"
    by simp
  with Cons.prems(1) r have "list_all (\<lambda>entry. nvResolution_wf (snd entry)) rest"
    by (rule Cons.IH)
  ultimately show ?case by (simp add: out)
qed

lemma run_pass_wf:
  assumes "keeps_shape step" and run: "run_pass step space = Inr space'" and wf: "nvSpace_wf space"
  shows "nvSpace_wf space'"
proof -
  from run obtain bs rs
    where er: "each_record step (bodies space) (resolutions space) = Inr (bs, rs)"
      and sp: "space' = space\<lparr>bodies := bs, resolutions := rs\<rparr>"
    by (auto simp: run_pass_def split: sum.splits)
  from wf have "list_all (\<lambda>entry. nvResolution_wf (snd entry)) (resolutions space)"
    by (simp add: nvSpace_wf_def)
  with assms(1) er have "list_all (\<lambda>entry. nvResolution_wf (snd entry)) rs"
    by (rule each_record_wf)
  then show ?thesis by (simp add: sp nvSpace_wf_def)
qed

lemma solve_contact_shape: "keeps_shape solve_contact"
  by (auto simp: keeps_shape_def solve_contact_def Let_def split: if_splits option.splits)

lemma correct_contact_shape: "keeps_shape (correct_contact cfg)"
  by (auto simp: keeps_shape_def correct_contact_def Let_def split: if_splits option.splits)

lemma solve_passes_wf:
  "solve_passes k space = Inr space' \<Longrightarrow> nvSpace_wf space \<Longrightarrow> nvSpace_wf space'"
proof (induction k arbitrary: space)
  case 0
  then show ?case by simp
next
  case (Suc k)
  from Suc.prems(1) obtain space1 where p: "run_pass solve_contact space = Inr space1"
    and rest: "solve_passes k space1 = Inr space'"
    by (auto split: sum.splits)
  from solve_contact_shape p Suc.prems(2) have "nvSpace_wf space1" by (rule run_pass_wf)
  with rest show ?case by (rule Suc.IH)
qed

lemma solveVelocity_wf:
  "ConstraintSolver_solveVelocity space k = Inr space' \<Longrightarrow> nvSpace_wf space \<Longrightarrow> nvSpace_wf space'"
  by (auto simp: ConstraintSolver_solveVelocity_def split: if_splits dest: solve_passes_wf)

lemma applyPositionCorrection_wf:
  "ConstraintSolver_applyPositionCorrection space = Inr space' \<Longrightarrow> nvSpace_wf space \<Longrightarrow>
   nvSpace_wf space'"
  unfolding ConstraintSolver_applyPositionCorrection_def
  using correct_contact_shape by (rule run_pass_wf)

lemma nvSpace_reachable_wf: "nvSpace_reachable space \<Longrightarrow> nvSpace_wf space"
proof (induction rule: nvSpace_reachable.induct)
  case (start space)
  then show ?case by (simp add: nvSpace_wf_def)
next
  case (update space pair m space')
  then show ?case by (auto intro: ResolutionCache_update_wf)
next
  case (evict space pair)
  then show ?case by (simp add: ResolutionCache_evict_wf)
next
  case (solve space k space')
  then show ?case by (auto intro: solveVelocity_wf)
next
  case (correct space space')
  then show ?case by (auto intro: applyPositionCorrection_wf)
next
  case (registry space bs)
  then show ?case by (simp add: nvSpace_wf_def)
qed
section \<open>The worked scenario, evaluated\<close>

lemma demo_update: "ResolutionCache_update demo_space (0, 1) demo_manifold = Inr demo_first"
  by (simp add: ResolutionCache_update_def create_resolution_def demo_space_def demo_manifold_def
      demo_first_def demo_resolution_def demo_contact_def demo_settings_def demo_body_a_def
      demo_body_b_def nv_mix_coefficients_unfold nvCoefficientMix_defs nvContact_new_def
      store_contacts_def nvVector2_sub_def nvVector2_perp_def Let_def)

lemma demo_first_reachable: "nvSpace_reachable demo_first"
proof -
  have "nvSpace_reachable demo_space"
    by (rule nvSpace_reachable.start) (simp add: demo_space_def)
  then show ?thesis using demo_update by (rule nvSpace_reachable.update)
qed

section \<open>Contact count and first records\<close>

text \<open>
  Claim C4. In every space that arises from an empty cache by the operations of the cache
  (update, evict), of the solver (velocity passes, position correction) and by changes of the
  body registry, every resolution record has a contact count of 0, 1 or 2, stores its
  contacts in an array of exactly 2 slots, and has as many contact points in use as the
  count says.
\<close>
theorem contact_count_invariant:
  "nvSpace_reachable space \<Longrightarrow> (pair, res) \<in> set (resolutions space) \<Longrightarrow>
   unat (contact_count res) \<in> {0, 1, 2} \<and> length (contacts res) = 2 \<and>
   length (active_contacts res) = unat (contact_count res)"
proof -
  assume "nvSpace_reachable space" and "(pair, res) \<in> set (resolutions space)"
  then have "nvResolution_wf (snd (pair, res))"
    using nvSpace_reachable_wf [of space] unfolding nvSpace_wf_def list_all_iff by blast
  then show ?thesis by (auto simp: nvResolution_wf_def active_contacts_def)
qed

theorem contact_count_invariant_witness:
  "nvSpace_reachable demo_first \<and> ((0, 1), demo_resolution) \<in> set (resolutions demo_first) \<and>
   unat (contact_count demo_resolution) = 1 \<and> length (contacts demo_resolution) = 2 \<and>
   length (active_contacts demo_resolution) = 1"
proof -
  have "((0, 1), demo_resolution) \<in> set (resolutions demo_first)"
    by (simp add: demo_first_def)
  with contact_count_invariant [OF demo_first_reachable this] demo_first_reachable
  show ?thesis by (simp add: demo_resolution_def)
qed

lemma nvContact_new_impulses:
  "jn (nvContact_new cfg A B n d e p) = 0 \<and> jt (nvContact_new cfg A B n d e p) = 0 \<and>
   jb (nvContact_new cfg A B n d e p) = 0"
  by (simp add: nvContact_new_def Let_def)

lemma create_resolution_first:
  assumes "create_resolution space pair m = Inr res"
  shows "state res = nvResolutionState_FIRST"
    and "\<exists>A B e. active_contacts res =
           map (nvContact_new (settings space) A B (m_normal m) (m_depth m) e)
             (points_list (m_points m))"
proof -
  from assms obtain A B f e where res: "res =
      \<lparr>collision = m_collision m, body_a = fst pair, body_b = snd pair,
       normal = m_normal m, depth = m_depth m, friction = f,
       state = nvResolutionState_FIRST,
       lifetime = cached_lifetime (settings space),
       contacts = store_contacts [nvContact_zero, nvContact_zero]
         (map (nvContact_new (settings space) A B (m_normal m) (m_depth m) e)
            (points_list (m_points m))),
       contact_count = of_nat (length (points_list (m_points m)))\<rparr>"
    by (auto simp: create_resolution_def split: option.splits sum.splits)
  show "state res = nvResolutionState_FIRST" by (simp add: res)
  have "active_contacts res =
      map (nvContact_new (settings space) A B (m_normal m) (m_depth m) e)
        (points_list (m_points m))"
    using store_contacts_take [of "map (nvContact_new (settings space) A B (m_normal m)
        (m_depth m) e) (points_list (m_points m))" "[nvContact_zero, nvContact_zero]"]
    by (simp add: res active_contacts_def contact_count_of_points)
  then show "\<exists>A B e. active_contacts res =
           map (nvContact_new (settings space) A B (m_normal m) (m_depth m) e)
             (points_list (m_points m))"
    by blast
qed

lemma nv_mix_coefficients_known:
  assumes "mix \<in> {nvCoefficientMix_AVG, nvCoefficientMix_MUL,
           nvCoefficientMix_SQRT, nvCoefficientMix_MIN, nvCoefficientMix_MAX}"
  shows "\<exists>v. nv_mix_coefficients x y mix = Inr v"
proof (cases "nv_mix_coefficients x y mix")
  case (Inl err)
  with assms show ?thesis
    by (auto simp: nv_mix_coefficients_unfold split: if_splits)
next
  case (Inr v)
  then show ?thesis by blast
qed

lemma create_resolution_returns:
  assumes "bodies space (fst pair) = Some A" and "bodies space (snd pair) = Some B"
    and "mix_mode (settings space) \<in> {nvCoefficientMix_AVG, nvCoefficientMix_MUL,
           nvCoefficientMix_SQRT, nvCoefficientMix_MIN, nvCoefficientMix_MAX}"
  shows "\<exists>res. create_resolution space pair m = Inr res"
proof -
  from assms(3) have "\<exists>v. nv_mix_coefficients x y (mix_mode (settings space)) = Inr v"
    for x y
    by (rule nv_mix_coefficients_known)
  then obtain f e
    where "nv_mix_coefficients (body_friction A) (body_friction B)
             (mix_mode (settings space)) = Inr f"
      and "nv_mix_coefficients (body_restitution A) (body_restitution B)
             (mix_mode (settings space)) = Inr e"
    by metis
  with assms(1,2) show ?thesis by (simp add: create_resolution_def)
qed

lemma update_existing_state:
  assumes "ResolutionCache_update space pair m = Inr space'"
    and "map_of (resolutions space) pair = Some res0"
    and "map_of (resolutions space') pair = Some res"
  shows "state res \<noteq> nvResolutionState_FIRST"
proof (cases "m_collision m")
  case True
  with assms(1,2) obtain res' where rf: "refresh_resolution space res0 m = Inr res'"
    and sp: "space' = space\<lparr>resolutions := AList.update pair res' (resolutions space)\<rparr>"
    by (auto simp: ResolutionCache_update_def split: sum.splits)
  from rf have "state res' = nvResolutionState_NORMAL"
    by (auto simp: refresh_resolution_def split: option.splits sum.splits)
  moreover from assms(3) have "res = res'" by (simp add: sp update_conv')
  ultimately show ?thesis by simp
next
  case False
  with assms(1,2) have
    "space' = space\<lparr>resolutions := AList.delete pair (resolutions space)\<rparr> \<or>
     space' = space\<lparr>resolutions :=
                AList.update pair (cache_resolution res0 m) (resolutions space)\<rparr>"
    by (auto simp: ResolutionCache_update_def split: if_splits)
  with assms(3) have "res = cache_resolution res0 m"
    by (auto simp: update_conv' delete_conv')
  then show ?thesis by (simp add: cache_resolution_def)
qed

lemma update_creates_returns:
  assumes "map_of (resolutions space) pair = None" and "bodies space (fst pair) = Some A"
    and "bodies space (snd pair) = Some B"
    and "mix_mode (settings space) \<in> {nvCoefficientMix_AVG, nvCoefficientMix_MUL,
      nvCoefficientMix_SQRT, nvCoefficientMix_MIN, nvCoefficientMix_MAX}"
  shows "\<exists>space'. ResolutionCache_update space pair m = Inr space'"
proof -
  from create_resolution_returns [OF assms(2,3,4)] obtain r
    where "create_resolution space pair m = Inr r" by blast
  with assms(1) show ?thesis by (simp add: ResolutionCache_update_def)
qed

lemma update_creates_first:
  assumes none: "map_of (resolutions space) pair = None"
    and upd: "ResolutionCache_update space pair m = Inr space'"
  shows "\<exists>res. map_of (resolutions space') pair = Some res \<and>
             state res = nvResolutionState_FIRST \<and>
             length (active_contacts res) = length (points_list (m_points m)) \<and>
             (\<forall>c \<in> set (active_contacts res). jn c = 0 \<and> jt c = 0 \<and> jb c = 0)"
proof -
  from none upd obtain res where cr: "create_resolution space pair m = Inr res"
    and sp: "space' = space\<lparr>resolutions := AList.update pair res (resolutions space)\<rparr>"
    by (auto simp: ResolutionCache_update_def split: sum.splits)
  from create_resolution_first(2) [OF cr] obtain A B e
    where act: "active_contacts res =
         map (nvContact_new (settings space) A B (m_normal m) (m_depth m) e)
           (points_list (m_points m))"
    by blast
  have "map_of (resolutions space') pair = Some res" by (simp add: sp update_conv')
  moreover have "state res = nvResolutionState_FIRST" by (rule create_resolution_first(1) [OF cr])
  moreover have "length (active_contacts res) = length (points_list (m_points m))"
    by (simp add: act)
  moreover have "\<forall>c \<in> set (active_contacts res). jn c = 0 \<and> jt c = 0 \<and> jb c = 0"
    by (auto simp: act nvContact_new_impulses)
  ultimately show ?thesis by blast
qed

text \<open>
  Claim C5. A record is in state FIRST right after \<open>ResolutionCache.update\<close> exactly when
  the pair had no record before: then the update creates the record in state FIRST with one
  contact in use per manifold point, and every contact in use has \<open>jn = jt = jb = 0\<close>;
  an update of a pair that has a record never leaves it in state FIRST. The creating update
  returns whenever both body handles are in the registry and the mixing mode is one of the
  five.
\<close>
theorem first_record_zero_impulses:
  "(map_of (resolutions space) pair = None \<and> ResolutionCache_update space pair m = Inr space' \<longrightarrow>
      (\<exists>res. map_of (resolutions space') pair = Some res \<and>
             state res = nvResolutionState_FIRST \<and>
             length (active_contacts res) = length (points_list (m_points m)) \<and>
             (\<forall>c \<in> set (active_contacts res). jn c = 0 \<and> jt c = 0 \<and> jb c = 0))) \<and>
   (ResolutionCache_update space pair m = Inr space' \<and>
    map_of (resolutions space') pair = Some res \<and> state res = nvResolutionState_FIRST \<longrightarrow>
      map_of (resolutions space) pair = None \<and>
      (\<forall>c \<in> set (active_contacts res). jn c = 0 \<and> jt c = 0 \<and> jb c = 0)) \<and>
   (map_of (resolutions space) pair = None \<and> bodies space (fst pair) = Some A \<and>
    bodies space (snd pair) = Some B \<and>
    mix_mode (settings space) \<in> {nvCoefficientMix_AVG, nvCoefficientMix_MUL,
      nvCoefficientMix_SQRT, nvCoefficientMix_MIN, nvCoefficientMix_MAX} \<longrightarrow>
      (\<exists>space''. ResolutionCache_update space pair m = Inr space''))"
proof -
  have created: "\<exists>res. map_of (resolutions space') pair = Some res \<and>
             state res = nvResolutionState_FIRST \<and>
             length (active_contacts res) = length (points_list (m_points m)) \<and>
             (\<forall>c \<in> set (active_contacts res). jn c = 0 \<and> jt c = 0 \<and> jb c = 0)"
    if none: "map_of (resolutions space) pair = None"
      and upd: "ResolutionCache_update space pair m = Inr space'"
    using none upd by (rule update_creates_first)
  have first: "map_of (resolutions space) pair = None \<and>
      (\<forall>c \<in> set (active_contacts res). jn c = 0 \<and> jt c = 0 \<and> jb c = 0)"
    if upd: "ResolutionCache_update space pair m = Inr space'"
      and res: "map_of (resolutions space') pair = Some res"
      and st: "state res = nvResolutionState_FIRST"
  proof -
    have none: "map_of (resolutions space) pair = None"
    proof (cases "map_of (resolutions space) pair")
      case None
      then show ?thesis .
    next
      case (Some res0)
      from update_existing_state [OF upd Some res] st show ?thesis by simp
    qed
    with created [OF none upd] res show ?thesis by auto
  qed
  have returns: "\<exists>space''. ResolutionCache_update space pair m = Inr space''"
    if "map_of (resolutions space) pair = None" and "bodies space (fst pair) = Some A"
      and "bodies space (snd pair) = Some B"
      and "mix_mode (settings space) \<in> {nvCoefficientMix_AVG, nvCoefficientMix_MUL,
        nvCoefficientMix_SQRT, nvCoefficientMix_MIN, nvCoefficientMix_MAX}"
    using that by (rule update_creates_returns)
  from created first returns show ?thesis by blast
qed

theorem first_record_zero_impulses_witness:
  "map_of (resolutions demo_space) (0, 1) = None \<and>
   bodies demo_space 0 = Some demo_body_a \<and> bodies demo_space 1 = Some demo_body_b \<and>
   mix_mode (settings demo_space) = nvCoefficientMix_MUL \<and>
   ResolutionCache_update demo_space (0, 1) demo_manifold = Inr demo_first \<and>
   map_of (resolutions demo_first) (0, 1) = Some demo_resolution \<and>
   state demo_resolution = nvResolutionState_FIRST \<and>
   active_contacts demo_resolution = [demo_contact] \<and>
   jn demo_contact = 0 \<and> jt demo_contact = 0 \<and> jb demo_contact = 0"
  using first_record_zero_impulses [of demo_space "(0, 1)" demo_manifold demo_first
      demo_resolution demo_body_a demo_body_b] demo_update
  by (simp add: demo_space_def demo_first_def demo_resolution_def demo_contact_def
      demo_settings_def demo_manifold_def active_contacts_def)


section \<open>Velocity passes\<close>

lemma clamp_cone: "0 \<le> f \<Longrightarrow> \<bar>nv_fmax (- f) (nv_fmin x f)\<bar> \<le> f"
  by (auto simp: nv_fmax_def nv_fmin_def)

lemma apply_to_pair_dom: "dom (apply_to_pair app bs res c impulse) = dom bs"
  by (auto simp: apply_to_pair_def Let_def split: option.splits if_splits)

lemma solve_contact_Inr:
  assumes "solve_contact bs res i = Inr (bs', res')"
  shows "\<exists>x y. i < length (contacts res) \<and> dom bs' = dom bs \<and>
           res' = res\<lparr>contacts := (contacts res)[i := (contacts res ! i)
             \<lparr>jn := nv_fmax x 0,
              jt := nv_fmax (- (friction res * nv_fmax x 0))
                      (nv_fmin y (friction res * nv_fmax x 0))\<rparr>]\<rparr>"
proof -
  from assms have i: "i < length (contacts res)"
    by (auto simp: solve_contact_def split: if_splits)
  from assms i obtain A B where A: "bs (body_a res) = Some A" and B: "bs (body_b res) = Some B"
    by (auto simp: solve_contact_def split: option.splits)
  define c where "c = contacts res ! i"
  define x where "x = jn c +
      - mass_normal c * (nvVector2_dot (relative_velocity A B c) (normal res) - velocity_bias c)"
  define y where "y = jt c +
      - mass_tangent c * nvVector2_dot (relative_velocity A B c) (nvVector2_perp (normal res))"
  define bs1 where "bs1 = apply_to_pair nvBody_apply_impulse bs res c
      (nvVector2_mul (normal res) (nv_fmax x 0 - jn c))"
  from assms i A B have out: "Inr (bs', res') =
      Inr (apply_to_pair nvBody_apply_impulse bs1 res c
             (nvVector2_mul (nvVector2_perp (normal res))
                (nv_fmax (- (friction res * nv_fmax x 0))
                   (nv_fmin y (friction res * nv_fmax x 0)) - jt c)),
           res\<lparr>contacts := (contacts res)[i := c
             \<lparr>jn := nv_fmax x 0,
              jt := nv_fmax (- (friction res * nv_fmax x 0))
                      (nv_fmin y (friction res * nv_fmax x 0))\<rparr>]\<rparr>)"
    unfolding solve_contact_def Let_def c_def x_def y_def bs1_def by simp
  then have "dom bs' = dom bs" by (simp add: apply_to_pair_dom bs1_def)
  moreover from out have "res' = res\<lparr>contacts := (contacts res)[i := (contacts res ! i)
             \<lparr>jn := nv_fmax x 0,
              jt := nv_fmax (- (friction res * nv_fmax x 0))
                      (nv_fmin y (friction res * nv_fmax x 0))\<rparr>]\<rparr>"
    by (simp add: c_def)
  ultimately show ?thesis using i by blast
qed

lemma solve_contact_solved:
  assumes "solve_contact bs res i = Inr (bs', res')"
  shows "i < length (contacts res')" and "length (contacts res') = length (contacts res)"
    and "friction res' = friction res" and "contact_count res' = contact_count res"
    and "body_a res' = body_a res" and "body_b res' = body_b res" and "dom bs' = dom bs"
    and "solved (friction res) (contacts res' ! i)"
    and "\<And>j. j \<noteq> i \<Longrightarrow> contacts res' ! j = contacts res ! j"
proof -
  from solve_contact_Inr [OF assms] obtain x y
    where i: "i < length (contacts res)" and d: "dom bs' = dom bs"
      and r: "res' = res\<lparr>contacts := (contacts res)[i := (contacts res ! i)
             \<lparr>jn := nv_fmax x 0,
              jt := nv_fmax (- (friction res * nv_fmax x 0))
                      (nv_fmin y (friction res * nv_fmax x 0))\<rparr>]\<rparr>"
    by blast
  show "i < length (contacts res')" using i by (simp add: r)
  show "length (contacts res') = length (contacts res)" by (simp add: r)
  show "friction res' = friction res" by (simp add: r)
  show "contact_count res' = contact_count res" by (simp add: r)
  show "body_a res' = body_a res" by (simp add: r)
  show "body_b res' = body_b res" by (simp add: r)
  show "dom bs' = dom bs" by (rule d)
  have n: "0 \<le> nv_fmax x 0" by (simp add: nv_fmax_def)
  have "0 \<le> friction res * nv_fmax x 0 \<Longrightarrow>
      \<bar>nv_fmax (- (friction res * nv_fmax x 0)) (nv_fmin y (friction res * nv_fmax x 0))\<bar>
        \<le> friction res * nv_fmax x 0"
    by (rule clamp_cone)
  with n i show "solved (friction res) (contacts res' ! i)"
    by (simp add: r solved_def)
  show "contacts res' ! j = contacts res ! j" if "j \<noteq> i" for j
    using that by (simp add: r)
qed

lemma each_contact_solved:
  "each_contact solve_contact bs res is = Inr (bs', res') \<Longrightarrow>
   friction res' = friction res \<and> length (contacts res') = length (contacts res) \<and>
   (\<forall>i \<in> set is. i < length (contacts res') \<and> solved (friction res) (contacts res' ! i)) \<and>
   (\<forall>j. j \<notin> set is \<longrightarrow> contacts res' ! j = contacts res ! j)"
proof (induction "is" arbitrary: bs res)
  case Nil
  then show ?case by simp
next
  case (Cons i "is")
  from Cons.prems obtain bs1 res1 where s1: "solve_contact bs res i = Inr (bs1, res1)"
    and rest: "each_contact solve_contact bs1 res1 is = Inr (bs', res')"
    by (auto split: sum.splits)
  note step = solve_contact_solved [OF s1]
  note ih = Cons.IH [OF rest]
  have fr: "friction res' = friction res" using ih step(3) by simp
  have len: "length (contacts res') = length (contacts res)" using ih step(2) by simp
  have here: "i < length (contacts res') \<and> solved (friction res) (contacts res' ! i)"
  proof (cases "i \<in> set is")
    case True
    with ih have "i < length (contacts res') \<and> solved (friction res1) (contacts res' ! i)"
      by blast
    with step(3) show ?thesis by simp
  next
    case False
    with ih have "contacts res' ! i = contacts res1 ! i" by simp
    with step(1,8) ih show ?thesis by simp
  qed
  have later: "\<forall>k \<in> set is. k < length (contacts res') \<and> solved (friction res) (contacts res' ! k)"
  proof
    fix k assume "k \<in> set is"
    with ih have "k < length (contacts res') \<and> solved (friction res1) (contacts res' ! k)"
      by blast
    with step(3) show "k < length (contacts res') \<and> solved (friction res) (contacts res' ! k)"
      by simp
  qed
  have other: "\<forall>j. j \<notin> set (i # is) \<longrightarrow> contacts res' ! j = contacts res ! j"
    using ih step(9) by simp
  from fr len here later other show ?case by simp
qed

lemma each_contact_of_solved:
  assumes "each_contact_of solve_contact bs res = Inr (bs', res')"
  shows "list_all (solved (friction res')) (active_contacts res')"
proof -
  from assms have run: "each_contact solve_contact bs res [0 ..< unat (contact_count res)]
      = Inr (bs', res')"
    by (simp add: each_contact_of_def)
  note facts = each_contact_solved [OF run]
  from solve_contact_shape run have cnt: "contact_count res' = contact_count res"
    by (rule each_contact_shape [THEN conjunct2])
  have "solved (friction res') c" if "c \<in> set (active_contacts res')" for c
  proof -
    from that obtain i where i: "i < length (active_contacts res')"
      and c: "c = active_contacts res' ! i"
      by (auto simp: in_set_conv_nth)
    from i have "i < unat (contact_count res)" by (simp add: active_contacts_def cnt)
    then have "i \<in> set [0 ..< unat (contact_count res)]" by simp
    with facts have "solved (friction res) (contacts res' ! i)" by blast
    moreover from i c have "c = contacts res' ! i" by (simp add: active_contacts_def)
    ultimately show ?thesis using facts by simp
  qed
  then show ?thesis by (simp add: list_all_iff)
qed

lemma each_record_solved:
  "each_record solve_contact bs rs = Inr (bs', rs') \<Longrightarrow>
   list_all (\<lambda>entry. list_all (solved (friction (snd entry))) (active_contacts (snd entry))) rs'"
proof (induction rs arbitrary: bs bs' rs')
  case Nil
  then show ?case by simp
next
  case (Cons entry rs)
  obtain pair res where entry: "entry = (pair, res)" by (cases entry)
  from Cons.prems obtain bs1 res1 bs2 rest
    where c: "each_contact_of solve_contact bs res = Inr (bs1, res1)"
      and r: "each_record solve_contact bs1 rs = Inr (bs2, rest)"
      and out: "rs' = (pair, res1) # rest"
    by (auto simp: entry split: sum.splits)
  from each_contact_of_solved [OF c] Cons.IH [OF r] show ?case by (simp add: out)
qed

lemma run_pass_solved: "run_pass solve_contact space = Inr space' \<Longrightarrow> all_solved space'"
  by (auto simp: run_pass_def all_solved_def split: sum.splits dest: each_record_solved)

lemma solve_passes_solved:
  "solve_passes k space = Inr space' \<Longrightarrow> 0 < k \<Longrightarrow> all_solved space'"
proof (induction k arbitrary: space)
  case 0
  then show ?case by simp
next
  case (Suc k)
  from Suc.prems(1) obtain space1 where p: "run_pass solve_contact space = Inr space1"
    and rest: "solve_passes k space1 = Inr space'"
    by (auto split: sum.splits)
  show ?case
  proof (cases k)
    case 0
    with rest have "space' = space1" by simp
    with p show ?thesis by (simp add: run_pass_solved)
  next
    case (Suc k')
    with rest show ?thesis by (intro Suc.IH) simp_all
  qed
qed

lemma solveVelocity_solved:
  assumes "ConstraintSolver_solveVelocity space k = Inr space'" and "0 < k"
    and "(pair, res) \<in> set (resolutions space')" and "c \<in> set (active_contacts res)"
  shows "solved (friction res) c"
proof -
  from assms(1,2) have "solve_passes (nat k) space = Inr space'" and "0 < nat k"
    by (simp_all add: ConstraintSolver_solveVelocity_def)
  then have "all_solved space'" by (rule solve_passes_solved)
  with assms(3) have "list_all (solved (friction (snd (pair, res)))) (active_contacts (snd (pair, res)))"
    unfolding all_solved_def list_all_iff by blast
  with assms(4) show ?thesis by (simp add: list_all_iff)
qed


lemma present_dom: "dom bs' = dom bs \<Longrightarrow> bs x \<noteq> None \<Longrightarrow> bs' x \<noteq> None"
  by (metis domIff)

lemma solve_contact_returns:
  assumes "i < length (contacts res)" and "bs (body_a res) \<noteq> None" and "bs (body_b res) \<noteq> None"
  shows "\<exists>bs' res'. solve_contact bs res i = Inr (bs', res')"
proof -
  from assms(2,3) obtain A B where "bs (body_a res) = Some A" and "bs (body_b res) = Some B"
    by blast
  with assms(1) show ?thesis by (simp add: solve_contact_def Let_def)
qed

lemma each_contact_returns:
  "\<forall>i \<in> set is. i < length (contacts res) \<Longrightarrow> bs (body_a res) \<noteq> None \<Longrightarrow>
   bs (body_b res) \<noteq> None \<Longrightarrow>
   \<exists>bs' res'. each_contact solve_contact bs res is = Inr (bs', res') \<and> dom bs' = dom bs \<and>
     body_a res' = body_a res \<and> body_b res' = body_b res"
proof (induction "is" arbitrary: bs res)
  case Nil
  then show ?case by simp
next
  case (Cons i "is")
  from Cons.prems have "i < length (contacts res)" by simp
  with Cons.prems(2,3) obtain bs1 res1 where s1: "solve_contact bs res i = Inr (bs1, res1)"
    using solve_contact_returns by blast
  note step = solve_contact_solved [OF s1]
  from Cons.prems(1) step(2) have idx: "\<forall>k \<in> set is. k < length (contacts res1)" by simp
  from step(7) Cons.prems(2) have "bs1 (body_a res) \<noteq> None" by (rule present_dom)
  with step(5) have a: "bs1 (body_a res1) \<noteq> None" by simp
  from step(7) Cons.prems(3) have "bs1 (body_b res) \<noteq> None" by (rule present_dom)
  with step(6) have b: "bs1 (body_b res1) \<noteq> None" by simp
  from Cons.IH [OF idx a b] obtain bs' res'
    where "each_contact solve_contact bs1 res1 is = Inr (bs', res')" and "dom bs' = dom bs1"
      and "body_a res' = body_a res1" and "body_b res' = body_b res1"
    by blast
  with s1 step(5,6,7) show ?case by simp
qed

lemma each_record_returns:
  "list_all (\<lambda>entry. nvResolution_wf (snd entry)) rs \<Longrightarrow> handles_present bs rs \<Longrightarrow>
   \<exists>bs' rs'. each_record solve_contact bs rs = Inr (bs', rs') \<and> dom bs' = dom bs \<and>
     handles_present bs' rs'"
proof (induction rs arbitrary: bs)
  case Nil
  then show ?case by (simp add: handles_present_def)
next
  case (Cons entry rs)
  obtain pair res where entry: "entry = (pair, res)" by (cases entry)
  from Cons.prems(1) have wf: "nvResolution_wf res"
    and wfs: "list_all (\<lambda>entry. nvResolution_wf (snd entry)) rs"
    by (simp_all add: entry)
  from Cons.prems(2) have a: "bs (body_a res) \<noteq> None" and b: "bs (body_b res) \<noteq> None"
    and hs: "handles_present bs rs"
    by (simp_all add: entry handles_present_def)
  from wf have "\<forall>i \<in> set [0 ..< unat (contact_count res)]. i < length (contacts res)"
    by (simp add: nvResolution_wf_def)
  from each_contact_returns [OF this a b] obtain bs1 res1
    where c0: "each_contact solve_contact bs res [0 ..< unat (contact_count res)]
        = Inr (bs1, res1)"
      and d1: "dom bs1 = dom bs"
      and a1: "body_a res1 = body_a res" and b1: "body_b res1 = body_b res"
    by blast
  from c0 have c: "each_contact_of solve_contact bs res = Inr (bs1, res1)"
    by (simp only: each_contact_of_def)
  have same: "handles_present bs2 xs = handles_present bs3 xs" if "dom bs2 = dom bs3"
    for bs2 bs3 :: "nvBody_ref \<rightharpoonup> nvBody" and xs
  proof -
    have "(bs2 x \<noteq> None) = (bs3 x \<noteq> None)" for x
      using that by (metis domIff)
    then show ?thesis by (simp add: handles_present_def)
  qed
  from hs same [OF d1, of rs] have "handles_present bs1 rs" by simp
  from Cons.IH [OF wfs this] obtain bs2 rest
    where r: "each_record solve_contact bs1 rs = Inr (bs2, rest)" and d2: "dom bs2 = dom bs1"
      and h2: "handles_present bs2 rest"
    by blast
  from d1 d2 have d: "dom bs2 = dom bs" by simp
  from present_dom [OF d a] present_dom [OF d b] a1 b1
  have "bs2 (body_a res1) \<noteq> None \<and> bs2 (body_b res1) \<noteq> None"
    by simp
  with h2 have h: "handles_present bs2 ((pair, res1) # rest)" by (simp add: handles_present_def)
  have "each_record solve_contact bs (entry # rs) = Inr (bs2, (pair, res1) # rest)"
    by (simp add: entry c r)
  with d h show ?case by blast
qed

lemma solve_passes_returns:
  "nvSpace_wf space \<Longrightarrow> handles_present (bodies space) (resolutions space) \<Longrightarrow>
   \<exists>space'. solve_passes k space = Inr space'"
proof (induction k arbitrary: space)
  case 0
  then show ?case by simp
next
  case (Suc k)
  from Suc.prems have "\<exists>bs' rs'. each_record solve_contact (bodies space) (resolutions space)
      = Inr (bs', rs') \<and> dom bs' = dom (bodies space) \<and> handles_present bs' rs'"
    by (intro each_record_returns) (simp add: nvSpace_wf_def)
  then obtain bs' rs'
    where r: "each_record solve_contact (bodies space) (resolutions space) = Inr (bs', rs')"
      and h: "handles_present bs' rs'"
    by blast
  let ?s = "space\<lparr>bodies := bs', resolutions := rs'\<rparr>"
  from r have p: "run_pass solve_contact space = Inr ?s" by (simp add: run_pass_def)
  from solve_contact_shape p Suc.prems(1) have "nvSpace_wf ?s" by (rule run_pass_wf)
  moreover from h have "handles_present (bodies ?s) (resolutions ?s)" by simp
  ultimately obtain space' where "solve_passes k ?s = Inr space'"
    using Suc.IH by blast
  with p show ?case by simp
qed

lemma solveVelocity_returns:
  "nvSpace_wf space \<Longrightarrow> handles_present (bodies space) (resolutions space) \<Longrightarrow> 0 \<le> k \<Longrightarrow>
   \<exists>space'. ConstraintSolver_solveVelocity space k = Inr space'"
  by (simp add: ConstraintSolver_solveVelocity_def solve_passes_returns)

lemmas demo_defs =
  demo_space_def demo_manifold_def demo_first_def demo_resolution_def demo_contact_def
  demo_settings_def demo_body_a_def demo_body_b_def demo_separated_def
  demo_solved_contact_def demo_solved_resolution_def demo_expiring_def
  demo_solved_def

lemmas solver_defs =
  ConstraintSolver_solveVelocity_def run_pass_def each_contact_of_def solve_contact_def
  apply_to_pair_def relative_velocity_def nvBody_apply_impulse_def nv_fmax_def nv_fmin_def
  nvVector2_add_def nvVector2_sub_def nvVector2_mul_def nvVector2_neg_def nvVector2_dot_def
  nvVector2_cross_def nvVector2_perp_def

lemma demo_solve: "ConstraintSolver_solveVelocity demo_first 1 = Inr demo_solved"
  by (simp add: demo_defs solver_defs Let_def numeral_eq_Suc fun_upd_twist)

lemma demo_first_wf: "nvSpace_wf demo_first"
  using demo_first_reachable by (rule nvSpace_reachable_wf)

lemma demo_first_handles: "handles_present (bodies demo_first) (resolutions demo_first)"
  by (simp add: handles_present_def demo_defs)

section \<open>Impulse bounds after a velocity pass\<close>

text \<open>
  Claim C6. After \<open>solveVelocity\<close> has run at least one pass, every contact point in use of
  every record has an accumulated normal impulse \<open>jn \<ge> 0\<close>. The solver returns whenever
  the records are well-formed, their body handles are in the registry and the iteration
  count is not negative.
\<close>
theorem normal_impulse_nonnegative:
  "(ConstraintSolver_solveVelocity space k = Inr space' \<and> 0 < k \<and>
    (pair, res) \<in> set (resolutions space') \<and> c \<in> set (active_contacts res) \<longrightarrow> 0 \<le> jn c) \<and>
   (nvSpace_wf space \<and> handles_present (bodies space) (resolutions space) \<and> 0 \<le> k \<longrightarrow>
      (\<exists>space''. ConstraintSolver_solveVelocity space k = Inr space''))"
proof (intro conjI impI)
  assume "ConstraintSolver_solveVelocity space k = Inr space' \<and> 0 < k \<and>
    (pair, res) \<in> set (resolutions space') \<and> c \<in> set (active_contacts res)"
  then have "solved (friction res) c" by (blast intro: solveVelocity_solved)
  then show "0 \<le> jn c" by (simp add: solved_def)
next
  assume "nvSpace_wf space \<and> handles_present (bodies space) (resolutions space) \<and> 0 \<le> k"
  then show "\<exists>space''. ConstraintSolver_solveVelocity space k = Inr space''"
    by (blast intro: solveVelocity_returns)
qed

theorem normal_impulse_nonnegative_witness:
  "ConstraintSolver_solveVelocity demo_first 1 = Inr demo_solved \<and> (0::int) < 1 \<and>
   ((0, 1), demo_solved_resolution) \<in> set (resolutions demo_solved) \<and>
   demo_solved_contact \<in> set (active_contacts demo_solved_resolution) \<and>
   jn demo_solved_contact = 1 \<and> 0 \<le> jn demo_solved_contact \<and>
   nvSpace_wf demo_first \<and> handles_present (bodies demo_first) (resolutions demo_first)"
  using normal_impulse_nonnegative [of demo_first 1 demo_solved "(0, 1)" demo_solved_resolution
      demo_solved_contact] demo_solve demo_first_wf demo_first_handles
  by (simp add: demo_solved_def demo_solved_resolution_def demo_solved_contact_def
      demo_resolution_def active_contacts_def)

lemma nv_mix_coefficients_nonneg:
  "0 \<le> x \<Longrightarrow> 0 \<le> y \<Longrightarrow> nv_mix_coefficients x y mix = Inr v \<Longrightarrow> 0 \<le> v"
  by (auto simp: nv_mix_coefficients_unfold nv_sqrt_def nv_fmin_def nv_fmax_def split: if_splits)

section \<open>The friction cone\<close>

lemma apply_to_pair_materials:
  assumes app: "\<And>B j r. body_friction (app B j r) = body_friction B"
    and bs: "materials_nonneg bs"
  shows "materials_nonneg (apply_to_pair app bs res c impulse)"
proof -
  have keep: "materials_nonneg (bs0(h \<mapsto> app B j r))"
    if "materials_nonneg bs0" and "bs0 h = Some B" for bs0 h B j r
    using that app by (auto simp: materials_nonneg_def)
  define bs1 where "bs1 = (case bs (body_a res) of
      None \<Rightarrow> bs
    | Some A \<Rightarrow> bs(body_a res \<mapsto> app A (nvVector2_neg impulse) (ra c)))"
  have one: "materials_nonneg bs1"
    unfolding bs1_def using bs by (auto split: option.splits intro: keep)
  have "apply_to_pair app bs res c impulse = (case bs1 (body_b res) of
      None \<Rightarrow> bs1
    | Some B \<Rightarrow> bs1(body_b res \<mapsto> app B impulse (rb c)))"
    by (simp only: apply_to_pair_def bs1_def Let_def)
  with one show ?thesis by (auto split: option.splits intro: keep)
qed

lemma apply_impulse_materials:
  "materials_nonneg bs \<Longrightarrow> materials_nonneg (apply_to_pair nvBody_apply_impulse bs res c impulse)"
  by (rule apply_to_pair_materials) (simp_all add: nvBody_apply_impulse_def)

lemma apply_pseudo_impulse_materials:
  "materials_nonneg bs \<Longrightarrow>
   materials_nonneg (apply_to_pair nvBody_apply_pseudo_impulse bs res c impulse)"
  by (rule apply_to_pair_materials) (simp_all add: nvBody_apply_pseudo_impulse_def)

lemma solve_contact_materials:
  assumes "solve_contact bs res i = Inr (bs', res')" and "materials_nonneg bs"
  shows "materials_nonneg bs'"
proof -
  from assms(1) have i: "i < length (contacts res)"
    by (auto simp: solve_contact_def split: if_splits)
  from assms(1) i obtain A B where A: "bs (body_a res) = Some A" and B: "bs (body_b res) = Some B"
    by (auto simp: solve_contact_def split: option.splits)
  from assms(1) i A B assms(2) show ?thesis
    unfolding solve_contact_def Let_def by (auto intro!: apply_impulse_materials)
qed

lemma correct_contact_materials:
  assumes "correct_contact cfg bs res i = Inr (bs', res')" and "materials_nonneg bs"
  shows "materials_nonneg bs'"
proof -
  from assms(1) have i: "i < length (contacts res)"
    by (auto simp: correct_contact_def split: if_splits)
  from assms(1) i obtain A B where A: "bs (body_a res) = Some A" and B: "bs (body_b res) = Some B"
    by (auto simp: correct_contact_def split: option.splits)
  from assms(1) i A B assms(2) show ?thesis
    unfolding correct_contact_def Let_def by (auto intro!: apply_pseudo_impulse_materials)
qed

lemma solve_contact_friction: "keeps_friction solve_contact"
  unfolding keeps_friction_def
  by (blast dest: solve_contact_solved(3) solve_contact_materials)

lemma correct_contact_friction: "keeps_friction (correct_contact cfg)"
proof -
  have "friction res' = friction res" if "correct_contact cfg bs res i = Inr (bs', res')"
    for bs res i bs' res'
    using that by (auto simp: correct_contact_def Let_def split: if_splits option.splits)
  then show ?thesis
    unfolding keeps_friction_def by (blast dest: correct_contact_materials)
qed

lemma each_contact_friction:
  "keeps_friction step \<Longrightarrow> each_contact step bs res is = Inr (bs', res') \<Longrightarrow>
   friction res' = friction res \<and> (materials_nonneg bs \<longrightarrow> materials_nonneg bs')"
proof (induction "is" arbitrary: bs res)
  case Nil
  then show ?case by simp
next
  case (Cons i "is")
  from Cons.prems(2) obtain bs1 res1 where s1: "step bs res i = Inr (bs1, res1)"
    and rest: "each_contact step bs1 res1 is = Inr (bs', res')"
    by (auto split: sum.splits)
  from Cons.prems(1) s1 have "friction res1 = friction res \<and>
      (materials_nonneg bs \<longrightarrow> materials_nonneg bs1)"
    unfolding keeps_friction_def by blast
  with Cons.IH [OF Cons.prems(1) rest] show ?case by simp
qed

lemma each_record_friction:
  "keeps_friction step \<Longrightarrow> each_record step bs rs = Inr (bs', rs') \<Longrightarrow>
   materials_nonneg bs \<Longrightarrow> list_all (\<lambda>entry. 0 \<le> friction (snd entry)) rs \<Longrightarrow>
   materials_nonneg bs' \<and> list_all (\<lambda>entry. 0 \<le> friction (snd entry)) rs'"
proof (induction rs arbitrary: bs bs' rs')
  case Nil
  then show ?case by simp
next
  case (Cons entry rs)
  obtain pair res where entry: "entry = (pair, res)" by (cases entry)
  from Cons.prems(2) obtain bs1 res1 bs2 rest
    where c: "each_contact step bs res [0 ..< unat (contact_count res)] = Inr (bs1, res1)"
      and r: "each_record step bs1 rs = Inr (bs2, rest)"
      and out: "bs' = bs2 \<and> rs' = (pair, res1) # rest"
    by (auto simp: entry each_contact_of_def split: sum.splits)
  from each_contact_friction [OF Cons.prems(1) c] Cons.prems(3)
  have f1: "friction res1 = friction res" and m1: "materials_nonneg bs1" by simp_all
  from Cons.prems(4) have "list_all (\<lambda>entry. 0 \<le> friction (snd entry)) rs"
    and f: "0 \<le> friction res"
    by (simp_all add: entry)
  with Cons.IH [OF Cons.prems(1) r m1] have "materials_nonneg bs2 \<and>
      list_all (\<lambda>entry. 0 \<le> friction (snd entry)) rest"
    by simp
  with f f1 out show ?case by simp
qed

lemma run_pass_friction:
  assumes "keeps_friction step" and "run_pass step space = Inr space'"
    and "frictions_nonneg space"
  shows "frictions_nonneg space'"
proof -
  from assms(2) obtain bs rs
    where er: "each_record step (bodies space) (resolutions space) = Inr (bs, rs)"
      and sp: "space' = space\<lparr>bodies := bs, resolutions := rs\<rparr>"
    by (auto simp: run_pass_def split: sum.splits)
  from assms(3) have "materials_nonneg (bodies space)"
    and "list_all (\<lambda>entry. 0 \<le> friction (snd entry)) (resolutions space)"
    by (simp_all add: frictions_nonneg_def)
  with each_record_friction [OF assms(1) er] show ?thesis
    by (simp add: sp frictions_nonneg_def)
qed

lemma solve_passes_friction:
  "solve_passes k space = Inr space' \<Longrightarrow> frictions_nonneg space \<Longrightarrow> frictions_nonneg space'"
proof (induction k arbitrary: space)
  case 0
  then show ?case by simp
next
  case (Suc k)
  from Suc.prems(1) obtain space1 where p: "run_pass solve_contact space = Inr space1"
    and rest: "solve_passes k space1 = Inr space'"
    by (auto split: sum.splits)
  from solve_contact_friction p Suc.prems(2) have "frictions_nonneg space1"
    by (rule run_pass_friction)
  with rest show ?case by (rule Suc.IH)
qed

lemma solveVelocity_friction:
  "ConstraintSolver_solveVelocity space k = Inr space' \<Longrightarrow> frictions_nonneg space \<Longrightarrow>
   frictions_nonneg space'"
  by (auto simp: ConstraintSolver_solveVelocity_def split: if_splits dest: solve_passes_friction)

lemma applyPositionCorrection_friction:
  "ConstraintSolver_applyPositionCorrection space = Inr space' \<Longrightarrow> frictions_nonneg space \<Longrightarrow>
   frictions_nonneg space'"
  unfolding ConstraintSolver_applyPositionCorrection_def
  using correct_contact_friction by (rule run_pass_friction)

lemma create_resolution_friction:
  assumes "create_resolution space pair m = Inr res" and "materials_nonneg (bodies space)"
  shows "0 \<le> friction res"
proof -
  from assms(1) obtain A B f where A: "bodies space (fst pair) = Some A"
    and B: "bodies space (snd pair) = Some B"
    and f: "nv_mix_coefficients (body_friction A) (body_friction B) (mix_mode (settings space))
        = Inr f"
    and res: "friction res = f"
    by (auto simp: create_resolution_def split: option.splits sum.splits)
  from assms(2) A B have "0 \<le> body_friction A" and "0 \<le> body_friction B"
    by (auto simp: materials_nonneg_def)
  then have "0 \<le> f" using f by (rule nv_mix_coefficients_nonneg)
  with res show ?thesis by simp
qed

lemma refresh_resolution_friction:
  assumes "refresh_resolution space res0 m = Inr res" and "materials_nonneg (bodies space)"
  shows "0 \<le> friction res"
proof -
  from assms(1) obtain A B f where A: "bodies space (body_a res0) = Some A"
    and B: "bodies space (body_b res0) = Some B"
    and f: "nv_mix_coefficients (body_friction A) (body_friction B) (mix_mode (settings space))
        = Inr f"
    and res: "friction res = f"
    by (auto simp: refresh_resolution_def split: option.splits sum.splits)
  from assms(2) A B have "0 \<le> body_friction A" and "0 \<le> body_friction B"
    by (auto simp: materials_nonneg_def)
  then have "0 \<le> f" using f by (rule nv_mix_coefficients_nonneg)
  with res show ?thesis by simp
qed

lemma ResolutionCache_update_friction:
  assumes "ResolutionCache_update space pair m = Inr space'" and "frictions_nonneg space"
  shows "frictions_nonneg space'"
proof -
  from assms(2) have mat: "materials_nonneg (bodies space)"
    and rs: "list_all (\<lambda>entry. 0 \<le> friction (snd entry)) (resolutions space)"
    by (simp_all add: frictions_nonneg_def)
  show ?thesis
  proof (cases "map_of (resolutions space) pair")
    case None
    with assms(1) obtain res where cr: "create_resolution space pair m = Inr res"
      and sp: "space' = space\<lparr>resolutions := AList.update pair res (resolutions space)\<rparr>"
      by (auto simp: ResolutionCache_update_def split: sum.splits)
    from cr mat have "0 \<le> friction res" by (rule create_resolution_friction)
    with mat rs show ?thesis by (simp add: sp frictions_nonneg_def list_all_update)
  next
    case (Some res0)
    with rs have f0: "0 \<le> friction res0"
      using list_all_map_of [of "\<lambda>entry. 0 \<le> friction (snd entry)" "resolutions space" pair res0]
      by simp
    show ?thesis
    proof (cases "m_collision m")
      case True
      with Some assms(1) obtain res where rf: "refresh_resolution space res0 m = Inr res"
        and sp: "space' = space\<lparr>resolutions := AList.update pair res (resolutions space)\<rparr>"
        by (auto simp: ResolutionCache_update_def split: sum.splits)
      from rf mat have "0 \<le> friction res" by (rule refresh_resolution_friction)
      with mat rs show ?thesis by (simp add: sp frictions_nonneg_def list_all_update)
    next
      case False
      with Some assms(1) have
        "space' = space\<lparr>resolutions := AList.delete pair (resolutions space)\<rparr> \<or>
         space' = space\<lparr>resolutions :=
                    AList.update pair (cache_resolution res0 m) (resolutions space)\<rparr>"
        by (auto simp: ResolutionCache_update_def split: if_splits)
      moreover from f0 have "0 \<le> friction (cache_resolution res0 m)"
        by (simp add: cache_resolution_def)
      ultimately show ?thesis using mat rs
        by (auto simp: frictions_nonneg_def list_all_update list_all_delete)
    qed
  qed
qed

lemma nvSpace_physical_frictions: "nvSpace_physical space \<Longrightarrow> frictions_nonneg space"
proof (induction rule: nvSpace_physical.induct)
  case (start space)
  then show ?case by (simp add: frictions_nonneg_def)
next
  case (update space pair m space')
  then show ?case by (auto intro: ResolutionCache_update_friction)
next
  case (evict space pair)
  then show ?case
    by (simp add: frictions_nonneg_def ResolutionCache_evict_def list_all_delete)
next
  case (solve space k space')
  then show ?case by (auto intro: solveVelocity_friction)
next
  case (correct space space')
  then show ?case by (auto intro: applyPositionCorrection_friction)
next
  case (registry space bs)
  then show ?case by (simp add: frictions_nonneg_def)
qed

lemma demo_first_physical: "nvSpace_physical demo_first"
proof -
  have "materials_nonneg (bodies demo_space)"
    by (simp add: materials_nonneg_def demo_space_def demo_body_a_def demo_body_b_def)
  then have "nvSpace_physical demo_space"
    by (intro nvSpace_physical.start) (simp add: demo_space_def)
  then show ?thesis using demo_update by (rule nvSpace_physical.update)
qed

text \<open>
  Claim C7. In every space that arises when the bodies of the registry have friction
  coefficients that are not negative, after \<open>solveVelocity\<close> has run at least one pass every
  contact point in use of every record has an accumulated tangential impulse inside the
  friction cone: \<open>\<bar>jt\<bar> \<le> friction * jn\<close>, with the mixed friction coefficient of the record.
  For any record at all the cone holds after a pass whenever its mixed friction is not
  negative or the normal impulse of the contact is 0. The solver returns whenever the
  records are well-formed, their body handles are in the registry and the iteration count
  is not negative.
\<close>
theorem friction_cone:
  "(nvSpace_physical space \<and> ConstraintSolver_solveVelocity space k = Inr space' \<and> 0 < k \<and>
    (pair, res) \<in> set (resolutions space') \<and> c \<in> set (active_contacts res) \<longrightarrow>
      \<bar>jt c\<bar> \<le> friction res * jn c) \<and>
   (ConstraintSolver_solveVelocity space k = Inr space' \<and> 0 < k \<and>
    (pair, res) \<in> set (resolutions space') \<and> c \<in> set (active_contacts res) \<and>
    (0 \<le> friction res \<or> jn c = 0) \<longrightarrow>
      \<bar>jt c\<bar> \<le> friction res * jn c) \<and>
   (nvSpace_wf space \<and> handles_present (bodies space) (resolutions space) \<and> 0 \<le> k \<longrightarrow>
      (\<exists>space''. ConstraintSolver_solveVelocity space k = Inr space''))"
proof -
  have cone: "\<bar>jt c\<bar> \<le> friction res * jn c"
    if run: "ConstraintSolver_solveVelocity space k = Inr space'" and k: "0 < k"
      and mem: "(pair, res) \<in> set (resolutions space')" and c: "c \<in> set (active_contacts res)"
      and dom: "0 \<le> friction res \<or> jn c = 0"
  proof -
    from run k mem c have s: "solved (friction res) c" by (rule solveVelocity_solved)
    then have "0 \<le> jn c" by (simp add: solved_def)
    with dom have "0 \<le> friction res * jn c" by auto
    with s show ?thesis by (simp add: solved_def)
  qed
  have physical: "\<bar>jt c\<bar> \<le> friction res * jn c"
    if ph: "nvSpace_physical space"
      and run: "ConstraintSolver_solveVelocity space k = Inr space'" and k: "0 < k"
      and mem: "(pair, res) \<in> set (resolutions space')" and c: "c \<in> set (active_contacts res)"
  proof -
    from ph run have "nvSpace_physical space'" by (rule nvSpace_physical.solve)
    then have "frictions_nonneg space'" by (rule nvSpace_physical_frictions)
    with mem have "0 \<le> friction (snd (pair, res))"
      unfolding frictions_nonneg_def list_all_iff by blast
    then have "0 \<le> friction res \<or> jn c = 0" by simp
    with run k mem c show ?thesis by (rule cone)
  qed
  have returns: "\<exists>space''. ConstraintSolver_solveVelocity space k = Inr space''"
    if "nvSpace_wf space" and "handles_present (bodies space) (resolutions space)" and "0 \<le> k"
    using that by (rule solveVelocity_returns)
  from cone physical returns show ?thesis by blast
qed

theorem friction_cone_witness:
  "nvSpace_physical demo_first \<and>
   ConstraintSolver_solveVelocity demo_first 1 = Inr demo_solved \<and> (0::int) < 1 \<and>
   ((0, 1), demo_solved_resolution) \<in> set (resolutions demo_solved) \<and>
   demo_solved_contact \<in> set (active_contacts demo_solved_resolution) \<and>
   0 \<le> friction demo_solved_resolution \<and>
   friction demo_solved_resolution = 3 / 20 \<and> jt demo_solved_contact = - 3 / 20 \<and>
   \<bar>jt demo_solved_contact\<bar> \<le> friction demo_solved_resolution * jn demo_solved_contact \<and>
   nvSpace_wf demo_first \<and> handles_present (bodies demo_first) (resolutions demo_first)"
proof -
  have m: "((0, 1), demo_solved_resolution) \<in> set (resolutions demo_solved)"
    by (simp add: demo_solved_def)
  have f: "0 \<le> friction demo_solved_resolution"
    by (simp add: demo_solved_resolution_def demo_resolution_def)
  have c: "demo_solved_contact \<in> set (active_contacts demo_solved_resolution)"
    by (simp add: demo_solved_resolution_def demo_resolution_def active_contacts_def)
  from friction_cone [of demo_first 1 demo_solved "(0, 1)" demo_solved_resolution
      demo_solved_contact] demo_first_physical demo_solve m f c demo_first_wf demo_first_handles
  show ?thesis
    by (simp add: demo_solved_resolution_def demo_resolution_def demo_solved_contact_def)
qed

section \<open>An unknown mixing mode\<close>

lemmas unchecked_defs =
  unchecked_settings_def unchecked_space_def unchecked_first_def unchecked_solved_def
  unchecked_cached_def

text \<open>
  Claim C3, as stated, fails: an unknown mode is not reported at configuration time. A space
  whose mixing mode is 5 is a space like any other: a velocity pass and an update that
  separates the pair \<open>(0, 1)\<close> return their results. The error is raised mid-tick, by the
  call of the mixer (here on the friction coefficients 0.3 and 0.5 of the two bodies)
  inside the update that creates the record of the pair.
\<close>
theorem unknown_mode_counterexample:
  "mix_mode (settings unchecked_space) = 5 \<and> mix_mode (settings unchecked_first) = 5 \<and>
   nvSpace_reachable unchecked_space \<and>
   ConstraintSolver_solveVelocity unchecked_first 1 = Inr unchecked_solved \<and>
   ResolutionCache_update unchecked_first (0, 1) demo_separated = Inr unchecked_cached \<and>
   ResolutionCache_update unchecked_space (0, 1) demo_manifold =
     Inl (NV_ERROR ''Unknown coefficient mixing function.'') \<and>
   nv_mix_coefficients (3 / 10) (1 / 2) 5 =
     Inl (NV_ERROR ''Unknown coefficient mixing function.'')"
proof -
  have modes: "mix_mode (settings unchecked_space) = 5 \<and> mix_mode (settings unchecked_first) = 5"
    by (simp add: unchecked_defs demo_defs)
  have reach: "nvSpace_reachable unchecked_space"
    by (rule nvSpace_reachable.start) (simp add: unchecked_defs demo_defs)
  have solve: "ConstraintSolver_solveVelocity unchecked_first 1 = Inr unchecked_solved"
    by (simp add: unchecked_defs demo_defs solver_defs Let_def numeral_eq_Suc fun_upd_twist)
  have separate: "ResolutionCache_update unchecked_first (0, 1) demo_separated = Inr unchecked_cached"
    by (simp add: ResolutionCache_update_def cache_resolution_def unchecked_defs demo_defs)
  have create: "ResolutionCache_update unchecked_space (0, 1) demo_manifold =
     Inl (NV_ERROR ''Unknown coefficient mixing function.'')"
    by (simp add: ResolutionCache_update_def create_resolution_def unchecked_defs demo_defs
        nv_mix_coefficients_unfold nvCoefficientMix_defs)
  have mix: "nv_mix_coefficients (3 / 10) (1 / 2) 5 =
     Inl (NV_ERROR ''Unknown coefficient mixing function.'')"
    by (simp add: nv_mix_coefficients_unfold nvCoefficientMix_defs)
  from modes reach solve separate create mix show ?thesis by blast
qed

lemma create_resolution_unknown:
  assumes "mix_mode (settings space) \<notin> {nvCoefficientMix_AVG, nvCoefficientMix_MUL,
      nvCoefficientMix_SQRT, nvCoefficientMix_MIN, nvCoefficientMix_MAX}"
    and "bodies space (fst pair) = Some A" and "bodies space (snd pair) = Some B"
  shows "create_resolution space pair m = Inl (NV_ERROR ''Unknown coefficient mixing function.'')"
  using assms by (simp add: create_resolution_def nv_mix_coefficients_unfold)

text \<open>
  Claim C3, amended. For a selector that is none of the five modes, the call of
  \<open>nv_mix_coefficients\<close> itself takes the \<open>default\<close> branch and runs \<open>NV_ERROR\<close> with the
  message "Unknown coefficient mixing function.": whatever the macro does, the call ends in
  its fatal error when the macro ends the process and returns the \<open>0.0\<close> behind the macro
  only when the macro comes back. With the macro a process abort, the call yields the fatal
  error and no value, and so does every update of the cache that has to mix for a new
  record: the error is raised at the mixing call, not at configuration time, and no default
  value is returned.
\<close>
theorem nv_mix_coefficients_unknown:
  "mix \<notin> {nvCoefficientMix_AVG, nvCoefficientMix_MUL, nvCoefficientMix_SQRT,
           nvCoefficientMix_MIN, nvCoefficientMix_MAX} \<Longrightarrow>
   nv_mix_coefficients_with on_error a b mix =
     (case on_error ''Unknown coefficient mixing function.'' of
        Some err \<Rightarrow> Inl err
      | None \<Rightarrow> Inr 0) \<and>
   nv_mix_coefficients a b mix = Inl (NV_ERROR ''Unknown coefficient mixing function.'') \<and>
   (\<forall>v. nv_mix_coefficients a b mix \<noteq> Inr v) \<and>
   (\<forall>space pair m A B.
      mix_mode (settings space) = mix \<and> map_of (resolutions space) pair = None \<and>
      bodies space (fst pair) = Some A \<and> bodies space (snd pair) = Some B \<longrightarrow>
      ResolutionCache_update space pair m =
        Inl (NV_ERROR ''Unknown coefficient mixing function.''))"
proof -
  assume unknown: "mix \<notin> {nvCoefficientMix_AVG, nvCoefficientMix_MUL, nvCoefficientMix_SQRT,
           nvCoefficientMix_MIN, nvCoefficientMix_MAX}"
  then have gen: "nv_mix_coefficients_with on_error a b mix =
     (case on_error ''Unknown coefficient mixing function.'' of
        Some err \<Rightarrow> Inl err
      | None \<Rightarrow> Inr 0)"
    by (simp add: nv_mix_coefficients_with_def)
  from unknown have err: "nv_mix_coefficients a b mix =
      Inl (NV_ERROR ''Unknown coefficient mixing function.'')"
    by (simp add: nv_mix_coefficients_unfold)
  have upd: "ResolutionCache_update space pair m =
        Inl (NV_ERROR ''Unknown coefficient mixing function.'')"
    if "mix_mode (settings space) = mix" and "map_of (resolutions space) pair = None"
      and "bodies space (fst pair) = Some A" and "bodies space (snd pair) = Some B"
    for space pair m A B
  proof -
    from unknown that(1) have "mix_mode (settings space) \<notin> {nvCoefficientMix_AVG,
        nvCoefficientMix_MUL, nvCoefficientMix_SQRT, nvCoefficientMix_MIN, nvCoefficientMix_MAX}"
      by simp
    from create_resolution_unknown [OF this that(3,4)] that(2) show ?thesis
      by (simp add: ResolutionCache_update_def)
  qed
  from gen err upd show ?thesis by simp
qed

theorem nv_mix_coefficients_unknown_witness:
  "(5::int) \<notin> {nvCoefficientMix_AVG, nvCoefficientMix_MUL, nvCoefficientMix_SQRT,
           nvCoefficientMix_MIN, nvCoefficientMix_MAX} \<and>
   nv_mix_coefficients_with NV_ERROR_macro 0.3 0.5 5 =
     Inl (NV_ERROR ''Unknown coefficient mixing function.'') \<and>
   nv_mix_coefficients_with (\<lambda>message. None) 0.3 0.5 5 = Inr 0 \<and>
   nv_mix_coefficients 0.3 0.5 5 = Inl (NV_ERROR ''Unknown coefficient mixing function.'') \<and>
   nv_mix_coefficients 0.3 0.5 5 \<noteq> Inr 0 \<and>
   mix_mode (settings unchecked_space) = 5 \<and>
   map_of (resolutions unchecked_space) (0, 1) = None \<and>
   bodies unchecked_space 0 = Some demo_body_a \<and> bodies unchecked_space 1 = Some demo_body_b \<and>
   ResolutionCache_update unchecked_space (0, 1) demo_manifold =
     Inl (NV_ERROR ''Unknown coefficient mixing function.'')"
proof -
  have five: "(5::int) \<notin> {nvCoefficientMix_AVG, nvCoefficientMix_MUL, nvCoefficientMix_SQRT,
           nvCoefficientMix_MIN, nvCoefficientMix_MAX}"
    by (simp add: nvCoefficientMix_defs)
  have sp: "mix_mode (settings unchecked_space) = 5 \<and>
      map_of (resolutions unchecked_space) (0, 1) = None \<and>
      bodies unchecked_space 0 = Some demo_body_a \<and> bodies unchecked_space 1 = Some demo_body_b"
    by (simp add: unchecked_defs demo_space_def)
  from nv_mix_coefficients_unknown [OF five, of NV_ERROR_macro "0.3" "0.5"]
    nv_mix_coefficients_unknown [OF five, of "\<lambda>message. None" "0.3" "0.5"] five sp
  show ?thesis by (simp add: NV_ERROR_macro_def)
qed

section \<open>Separation: caching and eviction\<close>

lemma separated_update:
  assumes "map_of (resolutions space) pair = Some res" and "\<not> m_collision m"
  shows "lifetime res - 1 = 0 \<Longrightarrow> ResolutionCache_update space pair m =
           Inr (space\<lparr>resolutions := AList.delete pair (resolutions space)\<rparr>)"
    and "lifetime res - 1 \<noteq> 0 \<Longrightarrow> ResolutionCache_update space pair m =
           Inr (space\<lparr>resolutions :=
                  AList.update pair (cache_resolution res m) (resolutions space)\<rparr>)"
  using assms by (simp_all add: ResolutionCache_update_def cache_resolution_def)

text \<open>
  Claim C8. For a pair that has a record, \<open>ResolutionCache.update\<close> with a manifold that
  reports no collision returns; when the decremented lifetime is not 0 the record stays,
  in state CACHED and with its lifetime lowered by exactly one (contacts and impulses
  untouched); when the decremented lifetime is 0 the record is gone from the cache, and the
  next update of the pair with a colliding manifold creates a record in state FIRST whose
  contacts in use all have \<open>jn = jt = jb = 0\<close>; that update returns whenever both body
  handles are in the registry and the mixing mode is one of the five.
\<close>
theorem separation_caches_then_evicts:
  assumes "map_of (resolutions space) pair = Some res" and "\<not> m_collision m"
  shows "\<exists>space'. ResolutionCache_update space pair m = Inr space' \<and>
     (lifetime res - 1 \<noteq> 0 \<longrightarrow>
        (\<exists>res'. map_of (resolutions space') pair = Some res' \<and>
           state res' = nvResolutionState_CACHED \<and> lifetime res' = lifetime res - 1 \<and>
           contacts res' = contacts res \<and> contact_count res' = contact_count res)) \<and>
     (lifetime res - 1 = 0 \<longrightarrow>
        map_of (resolutions space') pair = None \<and> pair \<notin> fst ` set (resolutions space') \<and>
        (\<forall>m2 space''. m_collision m2 \<and> ResolutionCache_update space' pair m2 = Inr space'' \<longrightarrow>
           (\<exists>res2. map_of (resolutions space'') pair = Some res2 \<and>
              state res2 = nvResolutionState_FIRST \<and>
              (\<forall>c \<in> set (active_contacts res2). jn c = 0 \<and> jt c = 0 \<and> jb c = 0))) \<and>
        (\<forall>m2 A B. bodies space' (fst pair) = Some A \<and> bodies space' (snd pair) = Some B \<and>
           mix_mode (settings space') \<in> {nvCoefficientMix_AVG, nvCoefficientMix_MUL,
             nvCoefficientMix_SQRT, nvCoefficientMix_MIN, nvCoefficientMix_MAX} \<longrightarrow>
           (\<exists>space''. ResolutionCache_update space' pair m2 = Inr space'')))"
proof (cases "lifetime res - 1 = 0")
  case True
  let ?s = "space\<lparr>resolutions := AList.delete pair (resolutions space)\<rparr>"
  from True have upd: "ResolutionCache_update space pair m = Inr ?s"
    by (rule separated_update(1) [OF assms])
  have none: "map_of (resolutions ?s) pair = None" by (simp add: delete_conv')
  have gone: "pair \<notin> fst ` set (resolutions ?s)" by (simp add: delete_notin_dom)
  have again: "\<forall>m2 space''. m_collision m2 \<and> ResolutionCache_update ?s pair m2 = Inr space'' \<longrightarrow>
           (\<exists>res2. map_of (resolutions space'') pair = Some res2 \<and>
              state res2 = nvResolutionState_FIRST \<and>
              (\<forall>c \<in> set (active_contacts res2). jn c = 0 \<and> jt c = 0 \<and> jb c = 0))"
    using update_creates_first [OF none] by blast
  have total: "\<forall>m2 A B. bodies ?s (fst pair) = Some A \<and> bodies ?s (snd pair) = Some B \<and>
           mix_mode (settings ?s) \<in> {nvCoefficientMix_AVG, nvCoefficientMix_MUL,
             nvCoefficientMix_SQRT, nvCoefficientMix_MIN, nvCoefficientMix_MAX} \<longrightarrow>
           (\<exists>space''. ResolutionCache_update ?s pair m2 = Inr space'')"
    using update_creates_returns [OF none] by blast
  from upd none gone again total True show ?thesis by blast
next
  case False
  let ?r = "cache_resolution res m"
  let ?s = "space\<lparr>resolutions := AList.update pair ?r (resolutions space)\<rparr>"
  from False have upd: "ResolutionCache_update space pair m = Inr ?s"
    by (rule separated_update(2) [OF assms])
  have "map_of (resolutions ?s) pair = Some ?r" by (simp add: update_conv')
  moreover have "state ?r = nvResolutionState_CACHED \<and> lifetime ?r = lifetime res - 1 \<and>
      contacts ?r = contacts res \<and> contact_count ?r = contact_count res"
    by (simp add: cache_resolution_def)
  ultimately show ?thesis using upd False by blast
qed

theorem separation_caches_then_evicts_witness:
  "map_of (resolutions demo_first) (0, 1) = Some demo_resolution \<and>
   \<not> m_collision demo_separated \<and> lifetime demo_resolution - 1 \<noteq> 0 \<and>
   ResolutionCache_update demo_first (0, 1) demo_separated =
     Inr (demo_space\<lparr>resolutions :=
       [((0, 1), demo_resolution\<lparr>collision := False, state := nvResolutionState_CACHED,
                                lifetime := 2\<rparr>)]\<rparr>) \<and>
   map_of (resolutions demo_expiring) (0, 1) =
     Some (demo_resolution\<lparr>collision := False, state := nvResolutionState_CACHED,
                           lifetime := 1\<rparr>) \<and>
   ResolutionCache_update demo_expiring (0, 1) demo_separated = Inr demo_space \<and>
   m_collision demo_manifold \<and>
   ResolutionCache_update demo_space (0, 1) demo_manifold = Inr demo_first \<and>
   state demo_resolution = nvResolutionState_FIRST \<and>
   active_contacts demo_resolution = [demo_contact] \<and>
   jn demo_contact = 0 \<and> jt demo_contact = 0 \<and> jb demo_contact = 0"
proof -
  have a: "map_of (resolutions demo_first) (0, 1) = Some demo_resolution"
    by (simp add: demo_first_def)
  have b: "\<not> m_collision demo_separated" by (simp add: demo_separated_def)
  have c: "map_of (resolutions demo_expiring) (0, 1) =
     Some (demo_resolution\<lparr>collision := False, state := nvResolutionState_CACHED,
                           lifetime := 1\<rparr>)"
    by (simp add: demo_expiring_def)
  have d: "ResolutionCache_update demo_first (0, 1) demo_separated =
     Inr (demo_space\<lparr>resolutions :=
       [((0, 1), demo_resolution\<lparr>collision := False, state := nvResolutionState_CACHED,
                                lifetime := 2\<rparr>)]\<rparr>)"
    by (simp add: ResolutionCache_update_def cache_resolution_def demo_first_def
        demo_space_def demo_separated_def demo_resolution_def)
  have e: "ResolutionCache_update demo_expiring (0, 1) demo_separated = Inr demo_space"
    by (simp add: ResolutionCache_update_def cache_resolution_def demo_expiring_def
        demo_space_def demo_separated_def demo_resolution_def)
  from separation_caches_then_evicts [OF a b] separation_caches_then_evicts [OF c b]
    a b c d e demo_update
  show ?thesis
    by (simp add: demo_resolution_def demo_manifold_def demo_contact_def active_contacts_def)
qed

text \<open>A record with \<open>n > 0\<close> ticks of lifetime left survives \<open>k < n\<close> ticks of separation
  with \<open>n - k\<close> ticks left, and is evicted by the \<open>n\<close>-th.\<close>
lemma separation_ticks:
  "map_of (resolutions space) pair = Some res \<Longrightarrow> \<not> m_collision m \<Longrightarrow>
   lifetime res = int n \<Longrightarrow> 0 < n \<Longrightarrow>
   (\<exists>space'. update_ticks n space pair m = Inr space' \<and>
      map_of (resolutions space') pair = None) \<and>
   (\<forall>k < n. \<exists>space' res'. update_ticks k space pair m = Inr space' \<and>
      map_of (resolutions space') pair = Some res' \<and> lifetime res' = int (n - k))"
proof (induction n arbitrary: space res)
  case 0
  then show ?case by simp
next
  case (Suc n)
  show ?case
  proof (cases "n = 0")
    case True
    with Suc.prems have "lifetime res - 1 = 0" by simp
    with separated_update(1) [OF Suc.prems(1,2)] Suc.prems(1,3) True
    show ?thesis by (auto simp: delete_conv')
  next
    case False
    with Suc.prems have ne: "lifetime res - 1 \<noteq> 0" by simp
    let ?r = "cache_resolution res m"
    let ?s = "space\<lparr>resolutions := AList.update pair ?r (resolutions space)\<rparr>"
    from separated_update(2) [OF Suc.prems(1,2) ne]
    have upd: "ResolutionCache_update space pair m = Inr ?s" .
    have r: "map_of (resolutions ?s) pair = Some ?r" by (simp add: update_conv')
    from Suc.prems(3) have l: "lifetime ?r = int n" by (simp add: cache_resolution_def)
    from False have n: "0 < n" by simp
    note ih = Suc.IH [OF r Suc.prems(2) l n]
    from ih upd have fin: "\<exists>space'. update_ticks (Suc n) space pair m = Inr space' \<and>
        map_of (resolutions space') pair = None"
      by simp
    have "\<exists>space' res'. update_ticks k space pair m = Inr space' \<and>
        map_of (resolutions space') pair = Some res' \<and> lifetime res' = int (Suc n - k)"
      if "k < Suc n" for k
    proof (cases k)
      case 0
      with Suc.prems(1,3) show ?thesis by simp
    next
      case (Suc k')
      with that have "k' < n" by simp
      with ih obtain space' res' where "update_ticks k' ?s pair m = Inr space'"
        and "map_of (resolutions space') pair = Some res'" and "lifetime res' = int (n - k')"
        by blast
      with upd Suc show ?thesis by simp
    qed
    with fin show ?thesis by blast
  qed
qed

end
